theory Spec2Isabelle
  imports Main "HOL-Library.Word" "HOL-Library.Multiset"
begin

section \<open>Bytes, identifiers and errors\<close>

type_synonym byte = "8 word"
type_synonym uint64 = "64 word"

text \<open>Go's \<^verbatim>\<open>[]byte("...")\<close> on an ASCII literal: one byte per character.\<close>

definition bytes_of_string :: "string \<Rightarrow> byte list" where
  "bytes_of_string s = map (\<lambda>c. of_nat (of_char c)) s"

text \<open>
  \<^verbatim>\<open>binary.BigEndian.PutUint64(heightBytes, height)\<close> on a fresh slice of
  \<^verbatim>\<open>wrappers.LongLen\<close> (8) bytes: byte \<open>i\<close> is \<open>byte(v >> (56 - 8 * i))\<close>.
  \<^verbatim>\<open>binary.BigEndian.Uint64\<close> reads the eight bytes back.
\<close>

definition PutUint64 :: "uint64 \<Rightarrow> byte list" where
  "PutUint64 v =
     [ucast (drop_bit 56 v), ucast (drop_bit 48 v), ucast (drop_bit 40 v),
      ucast (drop_bit 32 v), ucast (drop_bit 24 v), ucast (drop_bit 16 v),
      ucast (drop_bit 8 v), ucast v]"

definition Uint64 :: "byte list \<Rightarrow> uint64" where
  "Uint64 b = of_nat (foldl (\<lambda>acc x. acc * 256 + unat x) 0 b)"

text \<open>
  \<^verbatim>\<open>ids.ID\<close> is \<^verbatim>\<open>[32]byte\<close>: a byte string of length 32, nothing else.
  \<^verbatim>\<open>blkID[:]\<close> is its bytes, \<^verbatim>\<open>ids.ToID\<close> refuses any other length and
  \<^verbatim>\<open>ids.Empty\<close> is the zero value.
\<close>

typedef ID = "{bs :: byte list. length bs = 32}"
  by (rule exI[of _ "replicate 32 0"]) simp

datatype error =
  ErrNotFound | ErrInvalidHashLen | ErrWrongSize | ErrIndexIncomplete | ErrGetBlk | ErrStorage nat

definition id_bytes :: "ID \<Rightarrow> byte list" where
  "id_bytes blkID = Rep_ID blkID"

definition ToID :: "byte list \<Rightarrow> error + ID" where
  "ToID bytes = (if length bytes = 32 then Inr (Abs_ID bytes) else Inl ErrInvalidHashLen)"

definition Empty :: ID where
  "Empty = Abs_ID (replicate 32 0)"

section \<open>Persistence keys (package blockheightindex)\<close>

definition heightPrefix :: "byte list" where
  "heightPrefix = bytes_of_string ''heightkey''"

definition GetEntryKey :: "uint64 \<Rightarrow> byte list" where
  "GetEntryKey height =
     (let heightBytes = PutUint64 height;
          key = heightPrefix
      in key @ heightBytes)"

definition GetForkKey :: "byte list" where
  "GetForkKey = (let preForkPrefix = bytes_of_string ''preForkKey'' in preForkPrefix)"

definition GetCheckpointKey :: "byte list" where
  "GetCheckpointKey = (let checkpointPrefix = bytes_of_string ''checkpoint'' in checkpointPrefix)"

text \<open>
  The specification's wording of the layout, independent of the shifts above: the
  big-endian encoding of a number on eight bytes lists its base-256 digits, most
  significant first.
\<close>

definition big_endian_digit :: "nat \<Rightarrow> nat \<Rightarrow> byte" where
  "big_endian_digit n i = of_nat (n div 256 ^ (7 - i) mod 256)"

definition big_endian_uint64 :: "nat \<Rightarrow> byte list" where
  "big_endian_uint64 n = map (big_endian_digit n) [0..<8]"

section \<open>The key-value store, its batches and the LRU cache\<close>

text \<open>
  Modelled from the spec: package \<^verbatim>\<open>database\<close> is not among the sources. The
  specification assumes a key-value store with get, put, delete and batch and a not-found
  sentinel, whose I/O failures are propagated verbatim. The store is a finite map from
  keys to values; \<open>fault\<close> says which operations the environment makes fail, and with
  which storage error: the get, put or delete of a key, the write of a batch (of the
  puts and deletes it stages) or a commit. A failed operation changes nothing.
\<close>

datatype batch_op = BatchPut "byte list" "byte list" | BatchDelete "byte list"

datatype db_op =
  OpGet "byte list" | OpPut "byte list" | OpDelete "byte list" | OpWrite "batch_op list" | OpCommit

record database =
  contents :: "byte list \<rightharpoonup> byte list"
  fault :: "db_op \<Rightarrow> nat option"

definition db_Get :: "database \<Rightarrow> byte list \<Rightarrow> error + byte list" where
  "db_Get d key =
     (case fault d (OpGet key) of
        Some n \<Rightarrow> Inl (ErrStorage n)
      | None \<Rightarrow> (case contents d key of None \<Rightarrow> Inl ErrNotFound | Some v \<Rightarrow> Inr v))"

definition db_Put :: "database \<Rightarrow> byte list \<Rightarrow> byte list \<Rightarrow> error option \<times> database" where
  "db_Put d key v =
     (case fault d (OpPut key) of
        Some n \<Rightarrow> (Some (ErrStorage n), d)
      | None \<Rightarrow> (None, d\<lparr>contents := (contents d)(key \<mapsto> v)\<rparr>))"

definition db_Delete :: "database \<Rightarrow> byte list \<Rightarrow> error option \<times> database" where
  "db_Delete d key =
     (case fault d (OpDelete key) of
        Some n \<Rightarrow> (Some (ErrStorage n), d)
      | None \<Rightarrow> (None, d\<lparr>contents := (contents d)(key := None)\<rparr>))"

text \<open>
  \<^verbatim>\<open>vm.db.Commit()\<close>: the versioned database flushes what was put through it; the
  values a reader sees through the same handle do not change.
\<close>

definition db_Commit :: "database \<Rightarrow> error option \<times> database" where
  "db_Commit d =
     (case fault d OpCommit of Some n \<Rightarrow> (Some (ErrStorage n), d) | None \<Rightarrow> (None, d))"

text \<open>
  \<^verbatim>\<open>database.GetUInt64\<close> and \<^verbatim>\<open>database.PutUInt64\<close>: a scalar stored as its
  eight big-endian bytes.
\<close>

definition GetUInt64 :: "database \<Rightarrow> byte list \<Rightarrow> error + uint64" where
  "GetUInt64 d key =
     (case db_Get d key of
        Inl err \<Rightarrow> Inl err
      | Inr b \<Rightarrow> if length b \<noteq> 8 then Inl ErrWrongSize else Inr (Uint64 b))"

definition PutUInt64 :: "database \<Rightarrow> byte list \<Rightarrow> uint64 \<Rightarrow> error option \<times> database" where
  "PutUInt64 d key val = (let b = PutUint64 val in db_Put d key b)"

text \<open>
  Modelled from the spec: \<^verbatim>\<open>database.Batch\<close>, a write batch usable for an atomic
  multi-put. Staging a put or a delete only buffers it (and returns no error); \<open>Write\<close>
  applies the buffered operations in order, all or none, and keeps them buffered until
  \<open>Reset\<close>. The size of a batch is the number of key and value bytes staged.
\<close>

record batch =
  writes :: "batch_op list"

fun op_size :: "batch_op \<Rightarrow> int" where
  "op_size (BatchPut key v) = int (length key) + int (length v)"
| "op_size (BatchDelete key) = int (length key)"

fun apply_op :: "(byte list \<rightharpoonup> byte list) \<Rightarrow> batch_op \<Rightarrow> (byte list \<rightharpoonup> byte list)" where
  "apply_op m (BatchPut key v) = m(key \<mapsto> v)"
| "apply_op m (BatchDelete key) = m(key := None)"

definition NewBatch :: batch where
  "NewBatch = \<lparr>writes = []\<rparr>"

definition batch_Put :: "batch \<Rightarrow> byte list \<Rightarrow> byte list \<Rightarrow> error option \<times> batch" where
  "batch_Put b key v = (None, b\<lparr>writes := writes b @ [BatchPut key v]\<rparr>)"

definition batch_Delete :: "batch \<Rightarrow> byte list \<Rightarrow> error option \<times> batch" where
  "batch_Delete b key = (None, b\<lparr>writes := writes b @ [BatchDelete key]\<rparr>)"

definition batch_Size :: "batch \<Rightarrow> int" where
  "batch_Size b = sum_list (map op_size (writes b))"

definition batch_Write :: "batch \<Rightarrow> database \<Rightarrow> error option \<times> database" where
  "batch_Write b d =
     (case fault d (OpWrite (writes b)) of
        Some n \<Rightarrow> (Some (ErrStorage n), d)
      | None \<Rightarrow> (None, d\<lparr>contents := foldl apply_op (contents d) (writes b)\<rparr>))"

definition batch_Reset :: "batch \<Rightarrow> batch" where
  "batch_Reset b = b\<lparr>writes := []\<rparr>"

text \<open>
  Modelled from the spec: \<^verbatim>\<open>cache.LRU\<close>, a bounded cache evicting the least
  recently used entry. The entries are listed most recently used first.
\<close>

record LRU =
  Size :: nat
  elements :: "(byte list \<times> ID) list"

definition lru_Get :: "LRU \<Rightarrow> byte list \<Rightarrow> ID option \<times> LRU" where
  "lru_Get c key =
     (case map_of (elements c) key of
        None \<Rightarrow> (None, c)
      | Some v \<Rightarrow> (Some v, c\<lparr>elements := (key, v) # filter (\<lambda>e. fst e \<noteq> key) (elements c)\<rparr>))"

definition lru_Put :: "LRU \<Rightarrow> byte list \<Rightarrow> ID \<Rightarrow> LRU" where
  "lru_Put c key v =
     c\<lparr>elements := take (Size c) ((key, v) # filter (\<lambda>e. fst e \<noteq> key) (elements c))\<rparr>"

definition lru_Evict :: "LRU \<Rightarrow> byte list \<Rightarrow> LRU" where
  "lru_Evict c key = c\<lparr>elements := filter (\<lambda>e. fst e \<noteq> key) (elements c)\<rparr>"

definition lru_Flush :: "LRU \<Rightarrow> LRU" where
  "lru_Flush c = c\<lparr>elements := []\<rparr>"

section \<open>The height index (package blockheightindex)\<close>

text \<open>
  The struct also declares \<^verbatim>\<open>Lock sync.RWMutex\<close>; no method of the index takes it,
  so it has no part in what the methods compute.
\<close>

definition cacheSize :: nat where
  "cacheSize = 8192"

record index =
  blkHeightsCache :: LRU
  db :: database

definition New :: "database \<Rightarrow> index" where
  "New d = \<lparr>blkHeightsCache = \<lparr>Size = cacheSize, elements = []\<rparr>, db = d\<rparr>"

definition GetBlockIDAtHeight :: "index \<Rightarrow> uint64 \<Rightarrow> (error + ID) \<times> index" where
  "GetBlockIDAtHeight hi height =
     (let key = GetEntryKey height in
      case lru_Get (blkHeightsCache hi) key of
        (Some res, c) \<Rightarrow> (Inr res, hi\<lparr>blkHeightsCache := c\<rparr>)
      | (None, c) \<Rightarrow>
          (case db_Get (db hi) key of
             Inr bytes \<Rightarrow>
               (case ToID bytes of
                  Inr res \<Rightarrow> (Inr res, hi\<lparr>blkHeightsCache := lru_Put c key res\<rparr>)
                | Inl err \<Rightarrow> (Inl err, hi\<lparr>blkHeightsCache := c\<rparr>))
           | Inl err \<Rightarrow>
               (if err = ErrNotFound then (Inl ErrNotFound, hi\<lparr>blkHeightsCache := c\<rparr>)
                else (Inl err, hi\<lparr>blkHeightsCache := c\<rparr>))))"

definition GetForkHeight :: "index \<Rightarrow> error + uint64" where
  "GetForkHeight hi =
     (case GetUInt64 (db hi) GetForkKey of
        Inr height \<Rightarrow> Inr height
      | Inl err \<Rightarrow> (if err = ErrNotFound then Inl ErrNotFound else Inl err))"

definition SetBlockIDAtHeight :: "index \<Rightarrow> uint64 \<Rightarrow> ID \<Rightarrow> error option \<times> index" where
  "SetBlockIDAtHeight hi height blkID =
     (let key = GetEntryKey height;
          c = lru_Put (blkHeightsCache hi) key blkID;
          (err, d) = db_Put (db hi) key (id_bytes blkID)
      in (err, hi\<lparr>blkHeightsCache := c, db := d\<rparr>))"

definition DeleteBlockIDAtHeight :: "index \<Rightarrow> uint64 \<Rightarrow> error option \<times> index" where
  "DeleteBlockIDAtHeight hi height =
     (let key = GetEntryKey height;
          c = lru_Evict (blkHeightsCache hi) key;
          (err, d) = db_Delete (db hi) key
      in (err, hi\<lparr>blkHeightsCache := c, db := d\<rparr>))"

definition SetForkHeight :: "index \<Rightarrow> uint64 \<Rightarrow> error option \<times> index" where
  "SetForkHeight hi height =
     (let (err, d) = PutUInt64 (db hi) GetForkKey height in (err, hi\<lparr>db := d\<rparr>))"

definition DeleteForkHeight :: "index \<Rightarrow> error option \<times> index" where
  "DeleteForkHeight hi = (let (err, d) = db_Delete (db hi) GetForkKey in (err, hi\<lparr>db := d\<rparr>))"

definition ClearCache :: "index \<Rightarrow> index" where
  "ClearCache hi = hi\<lparr>blkHeightsCache := lru_Flush (blkHeightsCache hi)\<rparr>"

definition SetCheckpoint :: "index \<Rightarrow> ID \<Rightarrow> error option \<times> index" where
  "SetCheckpoint hi blkID =
     (let (err, d) = db_Put (db hi) GetCheckpointKey (id_bytes blkID) in (err, hi\<lparr>db := d\<rparr>))"

definition GetCheckpoint :: "index \<Rightarrow> error + ID" where
  "GetCheckpoint hi =
     (case db_Get (db hi) GetCheckpointKey of
        Inr bytes \<Rightarrow> ToID bytes
      | Inl err \<Rightarrow> (if err = ErrNotFound then Inl ErrNotFound else Inl err))"

definition DeleteCheckpoint :: "index \<Rightarrow> error option \<times> index" where
  "DeleteCheckpoint hi =
     (let (err, d) = db_Delete (db hi) GetCheckpointKey in (err, hi\<lparr>db := d\<rparr>))"

section \<open>The height indexer (package indexer)\<close>

text \<open>
  \<^verbatim>\<open>snowman.Block\<close> as the indexer reads it (\<open>ID()\<close>, \<open>Height()\<close>, \<open>Parent()\<close>) and
  the \<^verbatim>\<open>BlockServer\<close> interface, with the two function fields of
  \<^verbatim>\<open>TestBlockServer\<close>. Accepted blocks are immutable, so the server is a value.
\<close>

record block =
  IDV :: ID
  HeightV :: uint64
  ParentV :: ID

record BlockServer =
  LastAcceptedBlkIDF :: ID
  GetBlkF :: "ID \<Rightarrow> error + block"

definition LastAcceptedBlkID :: "BlockServer \<Rightarrow> ID" where
  "LastAcceptedBlkID srv = LastAcceptedBlkIDF srv"

definition GetBlk :: "BlockServer \<Rightarrow> ID \<Rightarrow> error + block" where
  "GetBlk srv blkID = GetBlkF srv blkID"

text \<open>
  Modelled from the spec: package \<^verbatim>\<open>logging\<close> is not among the sources; the logger
  is an opaque leveled sink, so its messages are left out. \<^verbatim>\<open>AssertTrue(b, ...)\<close> is a
  call: it returns to its caller, unless the logger is configured to panic on a failed
  assertion. \<open>AssertTrue l b\<close> says whether the call panics. The tests pass
  \<^verbatim>\<open>logging.NoLog\<close>, which never does.
\<close>

record Logger =
  assertions :: bool

definition NoLog :: Logger where
  "NoLog = \<lparr>assertions = False\<rparr>"

definition AssertTrue :: "Logger \<Rightarrow> bool \<Rightarrow> bool" where
  "AssertTrue l b = (\<not> b \<and> assertions l)"

record heightIndexer =
  server :: BlockServer
  log :: Logger
  jobDone :: bool
  indexState :: index
  batch :: batch
  commitMaxSize :: int

definition defaultCommitSizeCap :: int where
  "defaultCommitSizeCap = 1 * 1048576"

definition newHeightIndexer :: "BlockServer \<Rightarrow> Logger \<Rightarrow> index \<Rightarrow> heightIndexer" where
  "newHeightIndexer srv l ix =
     \<lparr>server = srv, log = l, jobDone = False, indexState = ix, batch = NewBatch,
      commitMaxSize = defaultCommitSizeCap\<rparr>"

text \<open>How a run of the indexer ends: it returns an error value (\<open>None\<close> is \<open>nil\<close>) or panics.\<close>

datatype exit = Return "error option" | Panic

definition IsRepaired :: "heightIndexer \<Rightarrow> bool" where
  "IsRepaired hi = jobDone hi"

text \<open>\<^verbatim>\<open>hi.batch.Write()\<close>: the batch commits into the database the index reads.\<close>

definition write_batch :: "heightIndexer \<Rightarrow> error option \<times> heightIndexer" where
  "write_batch hi =
     (let (err, d) = batch_Write (batch hi) (db (indexState hi))
      in (err, hi\<lparr>indexState := (indexState hi)\<lparr>db := d\<rparr>\<rparr>))"

definition shouldRepair :: "heightIndexer \<Rightarrow> (bool \<times> ID \<times> error option) \<times> heightIndexer" where
  "shouldRepair hi =
     (case GetCheckpoint (indexState hi) of
        Inr checkpointID \<Rightarrow> ((True, checkpointID, None), hi)
      | Inl err \<Rightarrow>
          if err \<noteq> ErrNotFound then ((True, Empty, Some err), hi)
          else
            (let latestBlkID = LastAcceptedBlkID (server hi) in
             case GetBlk (server hi) latestBlkID of
               Inl err \<Rightarrow> ((True, Empty, Some err), hi)
             | Inr lastAcceptedBlk \<Rightarrow>
                 (case GetBlockIDAtHeight (indexState hi) (HeightV lastAcceptedBlk) of
                    (Inr _, ix) \<Rightarrow> ((False, Empty, None), hi\<lparr>indexState := ix, jobDone := True\<rparr>)
                  | (Inl err, ix) \<Rightarrow>
                      if err = ErrNotFound then
                        (case batch_Put (batch hi) GetCheckpointKey (id_bytes latestBlkID) of
                           (Some err, b) \<Rightarrow> ((True, Empty, Some err), hi\<lparr>indexState := ix, batch := b\<rparr>)
                         | (None, b) \<Rightarrow> ((True, latestBlkID, None), hi\<lparr>indexState := ix, batch := b\<rparr>))
                      else ((True, Empty, Some err), hi\<lparr>indexState := ix\<rparr>))))"

definition doCheckpoint :: "heightIndexer \<Rightarrow> block \<Rightarrow> error option \<times> heightIndexer" where
  "doCheckpoint hi currentBlk =
     (let parentBlkID = ParentV currentBlk in
      case GetBlk (server hi) parentBlkID of
        Inr checkpointBlk \<Rightarrow>
          (let checkpoint = IDV checkpointBlk in
           case batch_Put (batch hi) GetCheckpointKey (id_bytes checkpoint) of
             (Some err, b) \<Rightarrow> (Some err, hi\<lparr>batch := b\<rparr>)
           | (None, b) \<Rightarrow> (None, hi\<lparr>batch := b\<rparr>))
      | Inl err \<Rightarrow> (if err = ErrNotFound then (None, hi) else (Some err, hi)))"

text \<open>
  One turn of the \<^verbatim>\<open>for\<close> loop of \<^verbatim>\<open>doRepair\<close>: \<open>Inl\<close> when the turn leaves the
  function, \<open>Inr\<close> with the indexer and the cursor of the next turn otherwise. After the
  \<^verbatim>\<open>case nil\<close> of the second switch nothing follows in the loop body: the next turn
  starts with the cursor it had.
\<close>

definition doRepair_body :: "heightIndexer \<Rightarrow> ID \<Rightarrow> (exit \<times> heightIndexer) + (heightIndexer \<times> ID)" where
  "doRepair_body hi currentBlkID =
     (case GetBlk (server hi) currentBlkID of
        Inl err \<Rightarrow>
          if err = ErrNotFound then
            (case batch_Delete (batch hi) GetCheckpointKey of
               (Some err, b) \<Rightarrow> Inl (Return (Some err), hi\<lparr>batch := b\<rparr>)
             | (None, b) \<Rightarrow> Inl (Return None, hi\<lparr>batch := b, jobDone := True\<rparr>))
          else Inl (Return (Some err), hi)
      | Inr currentAcceptedBlk \<Rightarrow>
          (case GetBlockIDAtHeight (indexState hi) (HeightV currentAcceptedBlk) of
             (Inr _, ix) \<Rightarrow>
               if AssertTrue (log hi) False then Inl (Panic, hi\<lparr>indexState := ix\<rparr>)
               else Inr (hi\<lparr>indexState := ix\<rparr>, currentBlkID)
           | (Inl err, ix) \<Rightarrow>
               if err = ErrNotFound then
                 (let entryKey = GetEntryKey (HeightV currentAcceptedBlk) in
                  case batch_Put (batch hi) entryKey (id_bytes currentBlkID) of
                    (Some err, b) \<Rightarrow> Inl (Return (Some err), hi\<lparr>indexState := ix, batch := b\<rparr>)
                  | (None, b) \<Rightarrow>
                      (let hi1 = hi\<lparr>indexState := ix, batch := b\<rparr> in
                       if batch_Size (batch hi1) > commitMaxSize hi1 then
                         (case doCheckpoint hi1 currentAcceptedBlk of
                            (Some err, hi2) \<Rightarrow> Inl (Return (Some err), hi2)
                          | (None, hi2) \<Rightarrow>
                              (case write_batch hi2 of
                                 (Some err, hi3) \<Rightarrow> Inl (Return (Some err), hi3)
                               | (None, hi3) \<Rightarrow>
                                   Inr (hi3\<lparr>batch := batch_Reset (batch hi3)\<rparr>, ParentV currentAcceptedBlk)))
                       else Inr (hi1, ParentV currentAcceptedBlk)))
               else Inl (Return (Some err), hi\<lparr>indexState := ix\<rparr>)))"

text \<open>The loop itself. It need not end: \<open>None\<close> is the run that never returns.\<close>

partial_function (option) doRepair :: "heightIndexer \<Rightarrow> ID \<Rightarrow> (exit \<times> heightIndexer) option" where
  "doRepair hi currentBlkID =
     (case doRepair_body hi currentBlkID of
        Inl res \<Rightarrow> Some res
      | Inr (hi', next) \<Rightarrow> doRepair hi' next)"

text \<open>The first \<open>n\<close> turns of the loop: where the walk stands after them, or how it ended.\<close>

fun doRepair_steps :: "nat \<Rightarrow> heightIndexer \<Rightarrow> ID \<Rightarrow> (exit \<times> heightIndexer) + (heightIndexer \<times> ID)" where
  "doRepair_steps 0 hi currentBlkID = Inr (hi, currentBlkID)"
| "doRepair_steps (Suc n) hi currentBlkID =
     (case doRepair_body hi currentBlkID of
        Inl res \<Rightarrow> Inl res
      | Inr (hi', next) \<Rightarrow> doRepair_steps n hi' next)"

definition RepairHeightIndex :: "heightIndexer \<Rightarrow> (exit \<times> heightIndexer) option" where
  "RepairHeightIndex hi =
     (case shouldRepair hi of
        ((needRepair, startBlkID, Some err), hi1) \<Rightarrow> Some (Return (Some err), hi1)
      | ((needRepair, startBlkID, None), hi1) \<Rightarrow>
          (case write_batch hi1 of
             (Some err, hi2) \<Rightarrow> Some (Return (Some err), hi2)
           | (None, hi2) \<Rightarrow>
               if \<not> needRepair then Some (Return None, hi2)
               else
                 (case doRepair hi2 startBlkID of
                    None \<Rightarrow> None
                  | Some (Panic, hi3) \<Rightarrow> Some (Panic, hi3)
                  | Some (Return (Some err), hi3) \<Rightarrow> Some (Return (Some err), hi3)
                  | Some (Return None, hi3) \<Rightarrow>
                      (case write_batch hi3 of
                         (Some err, hi4) \<Rightarrow> Some (Return (Some err), hi4)
                       | (None, hi4) \<Rightarrow> Some (Return None, hi4)))))"

text \<open>
  The indexer as the genesis-passed branch of \<^verbatim>\<open>doRepair\<close> leaves it: the deletion
  of the checkpoint staged, the flag set, nothing written yet.
\<close>

definition staged_deletion :: "heightIndexer \<Rightarrow> heightIndexer" where
  "staged_deletion hi =
     hi\<lparr>batch := (batch hi)\<lparr>writes := writes (batch hi) @ [BatchDelete GetCheckpointKey]\<rparr>,
        jobDone := True\<rparr>"

text \<open>
  What a run keeps true from the probe's commit to the end of the walk: the store holds a
  well-formed checkpoint, and nothing staged in the batch deletes it or overwrites it
  with anything but an identifier.
\<close>

definition checkpoint_kept :: "heightIndexer \<Rightarrow> bool" where
  "checkpoint_kept hi \<longleftrightarrow>
     (\<exists>cp. GetCheckpoint (indexState hi) = Inr cp)
     \<and> list_all (\<lambda>w. case w of BatchDelete k \<Rightarrow> k \<noteq> GetCheckpointKey
                          | BatchPut k v \<Rightarrow> k = GetCheckpointKey \<longrightarrow> length v = 32)
         (writes (batch hi))"

section \<open>The proposer VM's live updates (package proposervm)\<close>

text \<open>
  \<^verbatim>\<open>vm.State\<close> and the indexer's \<^verbatim>\<open>indexState\<close> are one and the same index, and
  \<^verbatim>\<open>vm.db\<close> is the database under it: the VM is modelled by its indexer, and
  \<open>State\<close> reads the index out of it.
\<close>

record VM =
  hIndexer :: heightIndexer

definition State :: "VM \<Rightarrow> index" where
  "State vm = indexState (hIndexer vm)"

definition State_update :: "index \<Rightarrow> VM \<Rightarrow> VM" where
  "State_update ix vm = vm\<lparr>hIndexer := (hIndexer vm)\<lparr>indexState := ix\<rparr>\<rparr>"

definition storeHeightEntry :: "VM \<Rightarrow> uint64 \<Rightarrow> ID \<Rightarrow> error option \<times> VM" where
  "storeHeightEntry vm height blkID =
     (case GetForkHeight (State vm) of
        Inl err \<Rightarrow> (Some err, vm)
      | Inr forkHeight \<Rightarrow>
          (case (if forkHeight > height then SetForkHeight (State vm) height else (None, State vm)) of
             (Some err, ix) \<Rightarrow> (Some err, State_update ix vm)
           | (None, ix) \<Rightarrow>
               (case SetBlockIDAtHeight ix height blkID of
                  (Some err, ix') \<Rightarrow> (Some err, State_update ix' vm)
                | (None, ix') \<Rightarrow>
                    (let (err, d) = db_Commit (db ix') in (err, State_update (ix'\<lparr>db := d\<rparr>) vm)))))"

definition updateHeightIndex :: "VM \<Rightarrow> uint64 \<Rightarrow> ID \<Rightarrow> error option \<times> VM" where
  "updateHeightIndex vm height blkID =
     (case GetCheckpoint (State vm) of
        Inr checkpoint \<Rightarrow>
          if blkID \<noteq> checkpoint then storeHeightEntry vm height blkID else (None, vm)
      | Inl err \<Rightarrow>
          if err = ErrNotFound then
            (if IsRepaired (hIndexer vm) then storeHeightEntry vm height blkID else (None, vm))
          else (Some err, vm))"

definition IsHeightIndexComplete :: "VM \<Rightarrow> bool" where
  "IsHeightIndexComplete vm = IsRepaired (hIndexer vm)"

section \<open>A chain the walk can finish\<close>

text \<open>
  What \<^verbatim>\<open>doRepair\<close> needs of the block server to reach the end of the chain: from the
  cursor the blocks \<open>bs\<close> follow each other by parent, and the parent of the last one is
  unknown to the server. \<open>indexed\<close> is the store such a walk aims at: each block's
  identifier under its height, and no checkpoint. \<open>effective\<close> is the store as the next
  commit of the batch would leave it; \<open>unwalked\<close> says that the store never fails and
  that neither it, the cache nor the batch knows the heights of \<open>bs\<close> yet.
\<close>

fun walkable :: "BlockServer \<Rightarrow> ID \<Rightarrow> block list \<Rightarrow> bool" where
  "walkable srv cur [] \<longleftrightarrow> GetBlk srv cur = Inl ErrNotFound"
| "walkable srv cur (b # bs) \<longleftrightarrow> GetBlk srv cur = Inr b \<and> walkable srv (ParentV b) bs"

fun indexed :: "ID \<Rightarrow> block list \<Rightarrow> (byte list \<rightharpoonup> byte list) \<Rightarrow> (byte list \<rightharpoonup> byte list)" where
  "indexed cur [] m = m(GetCheckpointKey := None)"
| "indexed cur (b # bs) m = indexed (ParentV b) bs (m(GetEntryKey (HeightV b) \<mapsto> id_bytes cur))"

definition effective :: "heightIndexer \<Rightarrow> (byte list \<rightharpoonup> byte list)" where
  "effective hi = foldl apply_op (contents (db (indexState hi))) (writes (batch hi))"

fun batch_key :: "batch_op \<Rightarrow> byte list" where
  "batch_key (BatchPut k v) = k"
| "batch_key (BatchDelete k) = k"

definition unwalked :: "heightIndexer \<Rightarrow> block list \<Rightarrow> bool" where
  "unwalked hi bs \<longleftrightarrow>
     fault (db (indexState hi)) = (\<lambda>_. None)
     \<and> list_all (\<lambda>b. contents (db (indexState hi)) (GetEntryKey (HeightV b)) = None
                    \<and> map_of (elements (blkHeightsCache (indexState hi))) (GetEntryKey (HeightV b)) = None
                    \<and> list_all (\<lambda>w. batch_key w \<noteq> GetEntryKey (HeightV b)) (writes (batch hi))) bs"

definition eq_off_ck :: "(byte list \<rightharpoonup> byte list) \<Rightarrow> (byte list \<rightharpoonup> byte list) \<Rightarrow> bool" where
  "eq_off_ck m m' \<longleftrightarrow> (\<forall>k. k \<noteq> GetCheckpointKey \<longrightarrow> m k = m' k)"


section \<open>The throttled message queue (package peer)\<close>

text \<open>
  Modelled from the spec: package \<^verbatim>\<open>throttling\<close> is not among the sources; the
  throttler is the interface \<open>Acquire(msg, peerID)\<close>, which answers whether the quota was
  reserved, and \<open>Release(msg, peerID)\<close>. Its policy is the parameter \<open>admits\<close>, which may
  look at everything acquired and released so far; \<open>acquired\<close> lists the successful
  \<open>Acquire\<close> calls and \<open>released\<close> the \<open>Release\<close> calls, in order.
\<close>

record 'm OutboundMsgThrottler =
  admits :: "'m list \<Rightarrow> 'm list \<Rightarrow> 'm \<Rightarrow> bool"
  acquired :: "'m list"
  released :: "'m list"

definition NewThrottler :: "('m list \<Rightarrow> 'm list \<Rightarrow> 'm \<Rightarrow> bool) \<Rightarrow> 'm OutboundMsgThrottler" where
  "NewThrottler p = \<lparr>admits = p, acquired = [], released = []\<rparr>"

definition Acquire :: "'m OutboundMsgThrottler \<Rightarrow> 'm \<Rightarrow> bool \<times> 'm OutboundMsgThrottler" where
  "Acquire t msg =
     (if admits t (acquired t) (released t) msg then (True, t\<lparr>acquired := acquired t @ [msg]\<rparr>)
      else (False, t))"

definition Release :: "'m OutboundMsgThrottler \<Rightarrow> 'm \<Rightarrow> 'm OutboundMsgThrottler" where
  "Release t msg = t\<lparr>released := released t @ [msg]\<rparr>"

text \<open>
  The queue with its throttler and the messages counted by \<^verbatim>\<open>metrics.SendFailed\<close>.
  Every method but the \<open>Acquire\<close> of \<open>Push\<close> runs under the mutex of the condition
  variable, so a method is one step. \<open>Pop\<close> on an open, empty queue waits on the
  condition variable: \<open>None\<close>.
\<close>

record 'm throttledMessageQueue =
  outboundMsgThrottler :: "'m OutboundMsgThrottler"
  sendFailed :: "'m list"
  closed :: bool
  queue :: "'m list"

definition NewThrottledMessageQueue :: "'m OutboundMsgThrottler \<Rightarrow> 'm throttledMessageQueue" where
  "NewThrottledMessageQueue t =
     \<lparr>outboundMsgThrottler = t, sendFailed = [], closed = False, queue = []\<rparr>"

definition Push :: "'m throttledMessageQueue \<Rightarrow> 'm \<Rightarrow> bool \<times> 'm throttledMessageQueue" where
  "Push q msg =
     (case Acquire (outboundMsgThrottler q) msg of
        (False, t) \<Rightarrow> (False, q\<lparr>outboundMsgThrottler := t, sendFailed := sendFailed q @ [msg]\<rparr>)
      | (True, t) \<Rightarrow>
          if closed q then
            (False, q\<lparr>outboundMsgThrottler := Release t msg, sendFailed := sendFailed q @ [msg]\<rparr>)
          else (True, q\<lparr>outboundMsgThrottler := t, queue := queue q @ [msg]\<rparr>))"

definition Pop :: "'m throttledMessageQueue \<Rightarrow> (('m option \<times> bool) \<times> 'm throttledMessageQueue) option" where
  "Pop q =
     (if closed q then Some ((None, False), q)
      else case queue q of
             [] \<Rightarrow> None
           | msg # rest \<Rightarrow>
               Some ((Some msg, True),
                     q\<lparr>queue := rest, outboundMsgThrottler := Release (outboundMsgThrottler q) msg\<rparr>))"

definition PopWithoutBlocking :: "'m throttledMessageQueue \<Rightarrow> ('m option \<times> bool) \<times> 'm throttledMessageQueue" where
  "PopWithoutBlocking q =
     (case queue q of
        [] \<Rightarrow> ((None, False), q)
      | msg # rest \<Rightarrow>
          ((Some msg, True),
           q\<lparr>queue := rest, outboundMsgThrottler := Release (outboundMsgThrottler q) msg\<rparr>))"

definition Close :: "'m throttledMessageQueue \<Rightarrow> 'm throttledMessageQueue" where
  "Close q =
     q\<lparr>closed := True,
       outboundMsgThrottler := foldl Release (outboundMsgThrottler q) (queue q),
       sendFailed := sendFailed q @ queue q,
       queue := []\<rparr>"

text \<open>A sequence of operations on one queue; a \<open>Pop\<close> that waits leaves the queue as it is.\<close>

datatype 'm queue_op = DoPush 'm | DoPop | DoPopWithoutBlocking | DoClose

fun apply_queue_op :: "'m throttledMessageQueue \<Rightarrow> 'm queue_op \<Rightarrow> 'm throttledMessageQueue" where
  "apply_queue_op q (DoPush msg) = snd (Push q msg)"
| "apply_queue_op q DoPop = (case Pop q of None \<Rightarrow> q | Some (_, q') \<Rightarrow> q')"
| "apply_queue_op q DoPopWithoutBlocking = snd (PopWithoutBlocking q)"
| "apply_queue_op q DoClose = Close q"

definition run_queue_ops :: "'m throttledMessageQueue \<Rightarrow> 'm queue_op list \<Rightarrow> 'm throttledMessageQueue" where
  "run_queue_ops q ops = foldl apply_queue_op q ops"

definition quota_balanced :: "'m throttledMessageQueue \<Rightarrow> bool" where
  "quota_balanced q \<longleftrightarrow>
     mset (acquired (outboundMsgThrottler q)) =
       mset (released (outboundMsgThrottler q)) + mset (queue q)
     \<and> (closed q \<longrightarrow> queue q = [])"

section \<open>The blocking message queue (package peer)\<close>


















section \<open>The worker pool (packages utils and router)\<close>

text \<open>
  The pool embeds a \<^verbatim>\<open>sync.Mutex\<close>, which is not reentrant: \<open>Lock\<close> on a locked mutex
  waits for an \<open>Unlock\<close>, whoever holds it. \<open>Lock\<close> is \<open>None\<close> where it waits.
  \<^verbatim>\<open>size\<close> and \<^verbatim>\<open>activeWorkers\<close> are Go \<^verbatim>\<open>int\<close>s, 64 bits wide on the platforms
  the node is built for: \<^verbatim>\<open>++\<close> and \<^verbatim>\<open>--\<close> wrap around and the comparisons are
  signed. The signal channel carries empty structs, so it is its length and its
  capacity, and whether it has been closed: a send on a closed channel panics. A method
  returns the pool it leaves, is blocked on the mutex in the pool it has reached, or
  panics (its deferred \<open>Unlock\<close> then runs).
\<close>

type_synonym go_int = "64 word"

record chan =
  chan_len :: nat
  chan_cap :: nat
  chan_closed :: bool

record ThreadPool =
  locked :: bool
  size :: go_int
  activeWorkers :: go_int
  signalCh :: chan

datatype outcome = Returned ThreadPool | Blocked ThreadPool | Panicked ThreadPool

fun pool_of :: "outcome \<Rightarrow> ThreadPool" where
  "pool_of (Returned t) = t"
| "pool_of (Blocked t) = t"
| "pool_of (Panicked t) = t"

definition Lock :: "ThreadPool \<Rightarrow> ThreadPool option" where
  "Lock t = (if locked t then None else Some (t\<lparr>locked := True\<rparr>))"

definition Unlock :: "ThreadPool \<Rightarrow> ThreadPool" where
  "Unlock t = t\<lparr>locked := False\<rparr>"

definition freeWorkerExists :: "ThreadPool \<Rightarrow> bool" where
  "freeWorkerExists t \<longleftrightarrow> sint (size t) > sint (activeWorkers t)"

text \<open>
  \<^verbatim>\<open>if len(t.signalCh) != cap(t.signalCh) { t.signalCh <- struct{}{} }\<close>, followed
  by the deferred \<open>Unlock\<close>.
\<close>

definition signal_free_worker :: "ThreadPool \<Rightarrow> outcome" where
  "signal_free_worker t =
     (if chan_len (signalCh t) \<noteq> chan_cap (signalCh t) then
        (if chan_closed (signalCh t) then Panicked (Unlock t)
         else Returned (Unlock (t\<lparr>signalCh := (signalCh t)\<lparr>chan_len := chan_len (signalCh t) + 1\<rparr>\<rparr>)))
      else Returned (Unlock t))"

text \<open>
  \<^verbatim>\<open>utils/thread_pool.go\<close> (first revision) and the router's pool: \<open>incrementWorkers\<close>
  and \<open>decrementWorkers\<close> take the mutex themselves, and \<open>releaseWorker\<close> calls
  \<open>decrementWorkers\<close> while it holds the mutex.
\<close>

definition incrementWorkers :: "ThreadPool \<Rightarrow> outcome" where
  "incrementWorkers t =
     (case Lock t of
        None \<Rightarrow> Blocked t
      | Some t1 \<Rightarrow>
          (let t2 = t1\<lparr>activeWorkers := activeWorkers t1 + 1\<rparr>;
               t3 = (if sint (activeWorkers t2) > sint (size t2) then t2\<lparr>activeWorkers := size t2\<rparr> else t2)
           in Returned (Unlock t3)))"

definition decrementWorkers :: "ThreadPool \<Rightarrow> outcome" where
  "decrementWorkers t =
     (case Lock t of
        None \<Rightarrow> Blocked t
      | Some t1 \<Rightarrow>
          (let t2 = t1\<lparr>activeWorkers := activeWorkers t1 - 1\<rparr>;
               t3 = (if sint (activeWorkers t2) < 0 then t2\<lparr>activeWorkers := 0\<rparr> else t2)
           in Returned (Unlock t3)))"

definition releaseWorker :: "ThreadPool \<Rightarrow> outcome" where
  "releaseWorker t =
     (case Lock t of
        None \<Rightarrow> Blocked t
      | Some t1 \<Rightarrow>
          (case decrementWorkers t1 of
             Blocked t2 \<Rightarrow> Blocked t2
           | Panicked t2 \<Rightarrow> Panicked (Unlock t2)
           | Returned t2 \<Rightarrow> signal_free_worker t2))"

text \<open>
  \<^verbatim>\<open>handleMessage\<close>: the worker of one admitted request. The request's own work
  does not touch the pool, and the deferred \<open>releaseWorker\<close> runs whether it fails or not.
\<close>

definition handleMessage :: "ThreadPool \<Rightarrow> outcome" where
  "handleMessage t =
     (case incrementWorkers t of
        Blocked t1 \<Rightarrow> Blocked t1
      | Panicked t1 \<Rightarrow> Panicked t1
      | Returned t1 \<Rightarrow> releaseWorker t1)"

text \<open>
  \<^verbatim>\<open>sendMessage\<close>, the submission of a request: with a free worker it starts the
  worker's goroutine at once; without one it waits for a signal (a receive on the signal
  channel, which a closed and empty channel also answers), then starts the worker if one
  is free and drops the request otherwise.
\<close>

datatype dispatch = Started | Waiting | Dropped

definition sendMessage :: "ThreadPool \<Rightarrow> dispatch \<times> ThreadPool" where
  "sendMessage t =
     (if freeWorkerExists t then (Started, t)
      else if chan_len (signalCh t) = 0 \<and> \<not> chan_closed (signalCh t) then (Waiting, t)
      else
        (let t1 = t\<lparr>signalCh := (signalCh t)\<lparr>chan_len := chan_len (signalCh t) - 1\<rparr>\<rparr>
         in if freeWorkerExists t1 then (Started, t1) else (Dropped, t1)))"

text \<open>
  \<^verbatim>\<open>utils/thread_pool.go\<close> (second revision): \<open>decrementWorkers\<close> takes no lock;
  \<open>releaseWorker\<close> is word for word the same.
\<close>

definition decrementWorkers_v2 :: "ThreadPool \<Rightarrow> ThreadPool" where
  "decrementWorkers_v2 t =
     (let t2 = t\<lparr>activeWorkers := activeWorkers t - 1\<rparr>
      in if sint (activeWorkers t2) < 0 then t2\<lparr>activeWorkers := 0\<rparr> else t2)"

definition releaseWorker_v2 :: "ThreadPool \<Rightarrow> outcome" where
  "releaseWorker_v2 t =
     (case Lock t of
        None \<Rightarrow> Blocked t
      | Some t1 \<Rightarrow>
          (let t2 = decrementWorkers_v2 t1 in signal_free_worker t2))"

text \<open>The signals a call has put into the channel when it returns, blocks or panics.\<close>

definition signals_emitted :: "ThreadPool \<Rightarrow> outcome \<Rightarrow> int" where
  "signals_emitted t r = int (chan_len (signalCh (pool_of r))) - int (chan_len (signalCh t))"

section \<open>Example chains, stores and pools\<close>

text \<open>
  A chain as the indexer's tests build it, cut to two blocks: a genesis block at height 0
  whose parent is the empty identifier, which the server does not know, and one block on
  top of it, the last accepted one. The indexer runs with \<^verbatim>\<open>logging.NoLog\<close> on an
  empty in-memory store; \<open>hIndex\<close> commits after each block, as the tests do.
\<close>

definition mkID :: "byte \<Rightarrow> ID" where
  "mkID b = Abs_ID (replicate 32 b)"

definition genesisBlk :: block where
  "genesisBlk = \<lparr>IDV = mkID 1, HeightV = 0, ParentV = Empty\<rparr>"

definition blk1 :: block where
  "blk1 = \<lparr>IDV = mkID 2, HeightV = 1, ParentV = mkID 1\<rparr>"

definition blkSrv :: BlockServer where
  "blkSrv =
     \<lparr>LastAcceptedBlkIDF = mkID 2,
      GetBlkF = (\<lambda>i. if i = mkID 1 then Inr genesisBlk
                     else if i = mkID 2 then Inr blk1 else Inl ErrNotFound)\<rparr>"

definition memDB :: database where
  "memDB = \<lparr>contents = Map.empty, fault = (\<lambda>_. None)\<rparr>"

definition hIndex :: heightIndexer where
  "hIndex = (newHeightIndexer blkSrv NoLog (New memDB))\<lparr>commitMaxSize := 0\<rparr>"



text \<open>
  The store a crash leaves when it falls between the return of \<^verbatim>\<open>doRepair\<close> and the
  final commit of a run of \<open>hIndex\<close>: both entries written, the checkpoint still at the
  genesis block. \<open>hRestart\<close> is the indexer of the next start.
\<close>

definition crashedDB :: database where
  "crashedDB =
     \<lparr>contents = [GetCheckpointKey \<mapsto> id_bytes (mkID 1),
                   GetEntryKey 0 \<mapsto> id_bytes (mkID 1),
                   GetEntryKey 1 \<mapsto> id_bytes (mkID 2)],
      fault = (\<lambda>_. None)\<rparr>"

definition hRestart :: heightIndexer where
  "hRestart = newHeightIndexer blkSrv NoLog (New crashedDB)"

text \<open>
  A block server that has no \<^verbatim>\<open>GetBlkF\<close> (\<^verbatim>\<open>TestBlockServer\<close> then answers
  \<^verbatim>\<open>errGetBlk\<close>), and a store whose reads fail.
\<close>

definition hIndex_noBlocks :: heightIndexer where
  "hIndex_noBlocks =
     newHeightIndexer \<lparr>LastAcceptedBlkIDF = mkID 2, GetBlkF = (\<lambda>i. Inl ErrGetBlk)\<rparr> NoLog (New memDB)"

definition unreadableDB :: database where
  "unreadableDB =
     \<lparr>contents = Map.empty,
      fault = (\<lambda>op. case op of OpGet _ \<Rightarrow> Some 0 | _ \<Rightarrow> None)\<rparr>"

definition hIndex_unreadable :: heightIndexer where
  "hIndex_unreadable = newHeightIndexer blkSrv NoLog (New unreadableDB)"

text \<open>
  A store that fails the write of a batch that stages a deletion, and accepts everything
  else; \<open>hIndex_undeletable\<close> is \<open>hIndex\<close> on it.
\<close>

fun is_delete :: "batch_op \<Rightarrow> bool" where
  "is_delete (BatchDelete key) = True"
| "is_delete (BatchPut key v) = False"

definition undeletableDB :: database where
  "undeletableDB =
     \<lparr>contents = Map.empty,
      fault = (\<lambda>op. case op of OpWrite ws \<Rightarrow> (if list_ex is_delete ws then Some 0 else None)
                     | _ \<Rightarrow> None)\<rparr>"

definition hIndex_undeletable :: heightIndexer where
  "hIndex_undeletable = (newHeightIndexer blkSrv NoLog (New undeletableDB))\<lparr>commitMaxSize := 0\<rparr>"

text \<open>A store whose puts fail, and a store whose index is complete.\<close>

definition putFailsDB :: database where
  "putFailsDB =
     \<lparr>contents = Map.empty,
      fault = (\<lambda>op. case op of OpPut _ \<Rightarrow> Some 0 | _ \<Rightarrow> None)\<rparr>"

definition indexedDB :: database where
  "indexedDB =
     \<lparr>contents = [GetEntryKey 0 \<mapsto> id_bytes (mkID 1), GetEntryKey 1 \<mapsto> id_bytes (mkID 2)],
      fault = (\<lambda>_. None)\<rparr>"

definition hIndex_complete :: heightIndexer where
  "hIndex_complete = newHeightIndexer blkSrv NoLog (New indexedDB)"

text \<open>
  Three VMs whose fork height is 0: one whose repair is under way with the checkpoint at
  the genesis block, one whose repair is done, and one with neither checkpoint nor flag.
\<close>

definition repairingDB :: database where
  "repairingDB =
     \<lparr>contents = [GetCheckpointKey \<mapsto> id_bytes (mkID 1), GetForkKey \<mapsto> PutUint64 0],
      fault = (\<lambda>_. None)\<rparr>"

definition forkedDB :: database where
  "forkedDB = \<lparr>contents = [GetForkKey \<mapsto> PutUint64 0], fault = (\<lambda>_. None)\<rparr>"

definition unforkedDB :: database where
  "unforkedDB = \<lparr>contents = [GetCheckpointKey \<mapsto> id_bytes (mkID 1)], fault = (\<lambda>_. None)\<rparr>"

definition vm_repairing :: VM where
  "vm_repairing = \<lparr>hIndexer = newHeightIndexer blkSrv NoLog (New repairingDB)\<rparr>"

definition vm_done :: VM where
  "vm_done = \<lparr>hIndexer = (newHeightIndexer blkSrv NoLog (New forkedDB))\<lparr>jobDone := True\<rparr>\<rparr>"

definition vm_idle :: VM where
  "vm_idle = \<lparr>hIndexer = newHeightIndexer blkSrv NoLog (New forkedDB)\<rparr>"

text \<open>A VM whose repair is under way on a store that holds no fork height.\<close>

definition vm_unforked :: VM where
  "vm_unforked = \<lparr>hIndexer = newHeightIndexer blkSrv NoLog (New unforkedDB)\<rparr>"

text \<open>
  A pool of one worker whose signal channel is full, and a pool of two busy workers
  whose signal channel is empty.
\<close>

definition full_pool :: ThreadPool where
  "full_pool = \<lparr>locked = False, size = 1, activeWorkers = 1, signalCh = \<lparr>chan_len = 1, chan_cap = 1, chan_closed = False\<rparr>\<rparr>"

definition busy_pool :: ThreadPool where
  "busy_pool = \<lparr>locked = False, size = 2, activeWorkers = 2, signalCh = \<lparr>chan_len = 0, chan_cap = 2, chan_closed = False\<rparr>\<rparr>"

section \<open>Key layout\<close>

lemma ucast_drop_bit_digit:
  "(ucast (drop_bit k (v::uint64)) :: byte) = of_nat (unat v div 2 ^ k mod 256)"
proof (rule word_unat_eq_iff[THEN iffD2])
  have "unat (ucast (drop_bit k v) :: byte) = drop_bit k (unat v) mod 256"
    by (simp add: unsigned_ucast_eq unat_drop_bit_eq take_bit_eq_mod)
  also have "\<dots> = unat v div 2 ^ k mod 256"
    by (simp add: drop_bit_eq_div)
  finally show "unat (ucast (drop_bit k v) :: byte) = unat (of_nat (unat v div 2 ^ k mod 256) :: byte)"
    by (simp add: unat_of_nat)
qed

lemma upt_0_8: "[0..<8] = [0, 1, 2, 3, 4, 5, 6, 7]"
  by (simp add: upt_rec)

lemma PutUint64_big_endian: "PutUint64 h = big_endian_uint64 (unat h)"
  unfolding PutUint64_def big_endian_uint64_def big_endian_digit_def upt_0_8
  using ucast_drop_bit_digit[of 0 h] by (simp add: ucast_drop_bit_digit)

lemma length_PutUint64: "length (PutUint64 h) = 8"
  by (simp add: PutUint64_def)

lemma length_GetEntryKey: "length (GetEntryKey h) = 17"
  by (simp add: GetEntryKey_def heightPrefix_def bytes_of_string_def length_PutUint64)

lemma ck_bytes: "GetCheckpointKey = [99, 104, 101, 99, 107, 112, 111, 105, 110, 116]"
  by (simp add: GetCheckpointKey_def bytes_of_string_def)

lemma fk_bytes: "GetForkKey = [112, 114, 101, 70, 111, 114, 107, 75, 101, 121]"
  by (simp add: GetForkKey_def bytes_of_string_def)

lemma GetEntryKey_neq_GetCheckpointKey: "GetEntryKey h \<noteq> GetCheckpointKey"
  using length_GetEntryKey[of h] by (auto simp add: ck_bytes)

lemma GetEntryKey_neq_GetForkKey: "GetEntryKey h \<noteq> GetForkKey"
  using length_GetEntryKey[of h] by (auto simp add: fk_bytes)

lemma byte_of_digit: "unat (of_nat (n mod 256) :: byte) = n mod 256"
  by (simp add: unat_of_nat)

lemma div_step: "(n::nat) div 2 ^ k mod 256 + 256 * (n div 2 ^ (k + 8)) = n div 2 ^ k"
proof -
  have "n div 2 ^ (k + 8) = n div 2 ^ k div 256"
    by (simp add: power_add div_mult2_eq)
  then show ?thesis by (simp add: mult.commute)
qed

lemma Uint64_PutUint64: "Uint64 (PutUint64 h) = h"
proof -
  define n where "n = unat h"
  have lt: "n < 2 ^ 64" unfolding n_def using unsigned_less[of h] by simp
  have z: "n div 2 ^ 64 = 0" using lt by simp
  have s0: "n div 2 ^ 0 mod 256 + 256 * (n div 2 ^ 8) = n div 2 ^ 0" using div_step[of n 0] by simp
  have s1: "n div 2 ^ 8 mod 256 + 256 * (n div 2 ^ 16) = n div 2 ^ 8" using div_step[of n 8] by simp
  have s2: "n div 2 ^ 16 mod 256 + 256 * (n div 2 ^ 24) = n div 2 ^ 16" using div_step[of n 16] by simp
  have s3: "n div 2 ^ 24 mod 256 + 256 * (n div 2 ^ 32) = n div 2 ^ 24" using div_step[of n 24] by simp
  have s4: "n div 2 ^ 32 mod 256 + 256 * (n div 2 ^ 40) = n div 2 ^ 32" using div_step[of n 32] by simp
  have s5: "n div 2 ^ 40 mod 256 + 256 * (n div 2 ^ 48) = n div 2 ^ 40" using div_step[of n 40] by simp
  have s6: "n div 2 ^ 48 mod 256 + 256 * (n div 2 ^ 56) = n div 2 ^ 48" using div_step[of n 48] by simp
  have s7: "n div 2 ^ 56 mod 256 + 256 * (n div 2 ^ 64) = n div 2 ^ 56" using div_step[of n 56] by simp
  define d0 where "d0 = n div 2 ^ 0 mod 256"
  define d1 where "d1 = n div 2 ^ 8 mod 256"
  define d2 where "d2 = n div 2 ^ 16 mod 256"
  define d3 where "d3 = n div 2 ^ 24 mod 256"
  define d4 where "d4 = n div 2 ^ 32 mod 256"
  define d5 where "d5 = n div 2 ^ 40 mod 256"
  define d6 where "d6 = n div 2 ^ 48 mod 256"
  define d7 where "d7 = n div 2 ^ 56 mod 256"
  define q1 where "q1 = n div 2 ^ 8"
  define q2 where "q2 = n div 2 ^ 16"
  define q3 where "q3 = n div 2 ^ 24"
  define q4 where "q4 = n div 2 ^ 32"
  define q5 where "q5 = n div 2 ^ 40"
  define q6 where "q6 = n div 2 ^ 48"
  define q7 where "q7 = n div 2 ^ 56"
  have e0: "n = d0 + 256 * q1" unfolding d0_def q1_def using s0 by simp
  have e1: "q1 = d1 + 256 * q2" unfolding d1_def q1_def q2_def by (rule s1[symmetric])
  have e2: "q2 = d2 + 256 * q3" unfolding d2_def q2_def q3_def by (rule s2[symmetric])
  have e3: "q3 = d3 + 256 * q4" unfolding d3_def q3_def q4_def by (rule s3[symmetric])
  have e4: "q4 = d4 + 256 * q5" unfolding d4_def q4_def q5_def by (rule s4[symmetric])
  have e5: "q5 = d5 + 256 * q6" unfolding d5_def q5_def q6_def by (rule s5[symmetric])
  have e6: "q6 = d6 + 256 * q7" unfolding d6_def q6_def q7_def by (rule s6[symmetric])
  have e7: "q7 = d7" unfolding d7_def q7_def using s7 z by simp
  have v: "(((((((d7 * 256 + d6) * 256 + d5) * 256 + d4) * 256 + d3) * 256 + d2) * 256 + d1) * 256 + d0) = n"
    unfolding e0 e1 e2 e3 e4 e5 e6 e7 by (simp add: algebra_simps)
  have b: "PutUint64 h = [of_nat d7, of_nat d6, of_nat d5, of_nat d4, of_nat d3, of_nat d2, of_nat d1, of_nat d0]"
    unfolding PutUint64_def d0_def d1_def d2_def d3_def d4_def d5_def d6_def d7_def n_def
    using ucast_drop_bit_digit[of 0 h] by (simp add: ucast_drop_bit_digit)
  have u: "unat (of_nat d0 :: byte) = d0" "unat (of_nat d1 :: byte) = d1" "unat (of_nat d2 :: byte) = d2"
    "unat (of_nat d3 :: byte) = d3" "unat (of_nat d4 :: byte) = d4" "unat (of_nat d5 :: byte) = d5"
    "unat (of_nat d6 :: byte) = d6" "unat (of_nat d7 :: byte) = d7"
    unfolding d0_def d1_def d2_def d3_def d4_def d5_def d6_def d7_def
    by (simp_all add: unat_of_nat)
  have "foldl (\<lambda>acc x. acc * 256 + unat x) 0
          [of_nat d7 :: byte, of_nat d6, of_nat d5, of_nat d4, of_nat d3, of_nat d2, of_nat d1, of_nat d0]
        = (((((((0 * 256 + d7) * 256 + d6) * 256 + d5) * 256 + d4) * 256 + d3) * 256 + d2) * 256 + d1) * 256 + d0"
    by (simp only: foldl_Cons foldl_Nil u)
  also have "\<dots> = n" using v by (simp only: mult_zero_left add_0)
  finally have "Uint64 (PutUint64 h) = of_nat n"
    unfolding b Uint64_def by (rule arg_cong)
  then show ?thesis by (simp add: n_def)
qed

lemma PutUint64_inject: "PutUint64 a = PutUint64 b \<longleftrightarrow> a = b"
proof
  assume "PutUint64 a = PutUint64 b"
  then have "Uint64 (PutUint64 a) = Uint64 (PutUint64 b)" by (rule arg_cong)
  then show "a = b" by (simp only: Uint64_PutUint64)
qed simp

lemma GetEntryKey_inject: "GetEntryKey a = GetEntryKey b \<longleftrightarrow> a = b"
  by (simp add: GetEntryKey_def PutUint64_inject)

text \<open>
  Claim C9. The persistence key layout is byte-exact: the key of the entry for height
  \<open>h\<close> is the bytes of "heightkey" followed by the eight-byte big-endian encoding of
  \<open>h\<close>, seventeen bytes in all; the fork-height key is the bytes of "preForkKey" and the
  checkpoint key is the bytes of "checkpoint". The ASCII codes are spelled out, and the
  eight bytes after the prefix read back, big-endian, as \<open>h\<close>.
\<close>

theorem key_layout_byte_exact:
  "GetEntryKey h = bytes_of_string ''heightkey'' @ big_endian_uint64 (unat h)
   \<and> GetEntryKey h = [104, 101, 105, 103, 104, 116, 107, 101, 121] @ big_endian_uint64 (unat h)
   \<and> length (big_endian_uint64 (unat h)) = 8
   \<and> length (GetEntryKey h) = 17
   \<and> GetForkKey = bytes_of_string ''preForkKey''
   \<and> GetForkKey = [112, 114, 101, 70, 111, 114, 107, 75, 101, 121]
   \<and> GetCheckpointKey = bytes_of_string ''checkpoint''
   \<and> GetCheckpointKey = [99, 104, 101, 99, 107, 112, 111, 105, 110, 116]
   \<and> Uint64 (drop 9 (GetEntryKey h)) = h"
proof -
  have e: "GetEntryKey h = bytes_of_string ''heightkey'' @ big_endian_uint64 (unat h)"
    by (simp add: GetEntryKey_def heightPrefix_def PutUint64_big_endian)
  have p: "bytes_of_string ''heightkey'' = [104, 101, 105, 103, 104, 116, 107, 101, 121]"
    by (simp add: bytes_of_string_def)
  have l: "length (big_endian_uint64 (unat h)) = 8"
    by (simp add: big_endian_uint64_def)
  have u: "Uint64 (drop 9 (GetEntryKey h)) = h"
    by (simp add: GetEntryKey_def heightPrefix_def bytes_of_string_def Uint64_PutUint64)
  show ?thesis
    using e p l u fk_bytes ck_bytes length_GetEntryKey[of h]
    by (simp add: GetForkKey_def GetCheckpointKey_def)
qed

section \<open>Identifiers and evaluation of the examples\<close>

lemma Rep_mkID [simp]: "Rep_ID (mkID b) = replicate 32 b"
  by (simp add: mkID_def Abs_ID_inverse)

lemma mkID_eq [simp]: "mkID a = mkID b \<longleftrightarrow> a = b"
proof
  assume "mkID a = mkID b"
  then have "Rep_ID (mkID a) = Rep_ID (mkID b)" by simp
  then have "hd (replicate 32 a) = hd (replicate 32 b)" by simp
  then show "a = b" by simp
qed simp

lemma Empty_mkID: "Empty = mkID 0"
  by (simp add: Empty_def mkID_def)

lemma ToID_id_bytes [simp]: "ToID (id_bytes i) = Inr i"
  using Rep_ID[of i] by (simp add: ToID_def id_bytes_def Rep_ID_inverse)

lemma length_id_bytes [simp]: "length (id_bytes i) = 32"
  using Rep_ID[of i] by (simp add: id_bytes_def)

lemma ek0: "GetEntryKey 0 = [104, 101, 105, 103, 104, 116, 107, 101, 121, 0, 0, 0, 0, 0, 0, 0, 0]"
  by (simp add: GetEntryKey_def heightPrefix_def bytes_of_string_def PutUint64_def)

lemma ek1: "GetEntryKey 1 = [104, 101, 105, 103, 104, 116, 107, 101, 121, 0, 0, 0, 0, 0, 0, 0, 1]"
  by (simp add: GetEntryKey_def heightPrefix_def bytes_of_string_def PutUint64_def)

lemmas eval_defs =
  hIndex_def newHeightIndexer_def NewBatch_def New_def memDB_def blkSrv_def NoLog_def
  genesisBlk_def blk1_def cacheSize_def Empty_mkID
  shouldRepair_def GetCheckpoint_def db_Get_def GetBlk_def LastAcceptedBlkID_def
  GetBlockIDAtHeight_def lru_Get_def lru_Put_def batch_Put_def batch_Delete_def
  doRepair_body_def doCheckpoint_def write_batch_def batch_Write_def batch_Reset_def batch_Size_def
  AssertTrue_def Let_def

section \<open>The index: a read after a write\<close>

lemma db_GetBlockIDAtHeight [simp]: "db (snd (GetBlockIDAtHeight ix h)) = db ix"
  by (simp add: GetBlockIDAtHeight_def Let_def lru_Get_def split: option.splits sum.splits)

lemma map_of_take_front: "0 < n \<Longrightarrow> map_of (take n ((k, v) # xs)) k = Some v"
  by (cases n) simp_all

lemma GetBlockIDAtHeight_again:
  assumes "fst (GetBlockIDAtHeight ix h) = Inr v"
  shows "fst (GetBlockIDAtHeight (snd (GetBlockIDAtHeight ix h)) h) = Inr v"
proof (cases "map_of (elements (blkHeightsCache ix)) (GetEntryKey h)")
  case (Some w)
  then show ?thesis using assms
    by (simp add: GetBlockIDAtHeight_def Let_def lru_Get_def)
next
  case None
  show ?thesis
  proof (cases "Size (blkHeightsCache ix) = 0")
    case True
    then show ?thesis using assms None
      by (auto simp add: GetBlockIDAtHeight_def Let_def lru_Get_def lru_Put_def split: sum.splits if_splits)
  next
    case False
    then show ?thesis using assms None
      by (auto simp add: GetBlockIDAtHeight_def Let_def lru_Get_def lru_Put_def map_of_take_front
          split: sum.splits if_splits)
  qed
qed

lemma GetForkHeight_SetForkHeight:
  assumes "fst (SetForkHeight hi h) = None" and "fault (db hi) (OpGet GetForkKey) = None"
  shows "GetForkHeight (snd (SetForkHeight hi h)) = Inr h"
  using assms
  by (auto simp add: SetForkHeight_def PutUInt64_def db_Put_def GetForkHeight_def GetUInt64_def db_Get_def
      Uint64_PutUint64 length_PutUint64 Let_def split: option.splits)

lemma GetBlockIDAtHeight_SetBlockIDAtHeight:
  assumes "fst (SetBlockIDAtHeight hi h blkID) = None"
    and "fault (db hi) (OpGet (GetEntryKey h)) = None"
  shows "fst (GetBlockIDAtHeight (snd (SetBlockIDAtHeight hi h blkID)) h) = Inr blkID"
proof (cases "Size (blkHeightsCache hi) = 0")
  case True
  then show ?thesis using assms
    by (auto simp add: SetBlockIDAtHeight_def GetBlockIDAtHeight_def db_Put_def db_Get_def lru_Put_def
        lru_Get_def Let_def split: option.splits)
next
  case False
  then show ?thesis using assms
    by (auto simp add: SetBlockIDAtHeight_def GetBlockIDAtHeight_def db_Put_def db_Get_def lru_Put_def
        lru_Get_def Let_def map_of_take_front split: option.splits)
qed

lemma storeHeightEntry_read_back:
  assumes "fst (storeHeightEntry vm h blkID) = None"
    and "fault (db (State vm)) (OpGet (GetEntryKey h)) = None"
  shows "fst (GetBlockIDAtHeight (State (snd (storeHeightEntry vm h blkID))) h) = Inr blkID"
proof -
  obtain fh where f: "GetForkHeight (State vm) = Inr fh"
    using assms(1) by (cases "GetForkHeight (State vm)") (simp_all add: storeHeightEntry_def)
  obtain e1 ix where s: "(if fh > h then SetForkHeight (State vm) h else (None, State vm)) = (e1, ix)"
    by (cases "if fh > h then SetForkHeight (State vm) h else (None, State vm)")
  have e1: "e1 = None" using assms(1) f s by (cases e1) (simp_all add: storeHeightEntry_def)
  have fx: "fault (db ix) = fault (db (State vm))"
    using s by (auto simp add: SetForkHeight_def PutUInt64_def db_Put_def Let_def split: if_splits option.splits)
  obtain e2 ix' where t: "SetBlockIDAtHeight ix h blkID = (e2, ix')" by (cases "SetBlockIDAtHeight ix h blkID")
  have e2: "e2 = None" using assms(1) f s e1 t by (cases e2) (simp_all add: storeHeightEntry_def)
  have r: "fst (GetBlockIDAtHeight ix' h) = Inr blkID"
    using GetBlockIDAtHeight_SetBlockIDAtHeight[of ix h blkID] t e2 fx assms(2) by simp
  obtain e3 d where c: "db_Commit (db ix') = (e3, d)" by (cases "db_Commit (db ix')")
  have d: "d = db ix'" using c by (auto simp add: db_Commit_def split: option.splits)
  have "State (snd (storeHeightEntry vm h blkID)) = ix'"
    using f s e1 t e2 c d by (simp add: storeHeightEntry_def State_def State_update_def)
  with r show ?thesis by simp
qed

text \<open>
  Claim C6 says that after a \<open>SetBlockIDAtHeight(h, id)\<close> whose database put fails, a
  read of \<open>h\<close> does not return \<open>id\<close>. The code updates the cache before the put and
  leaves it so when the put fails: with a cache that holds at least one entry, the put's
  error is returned, the store is unchanged, and the next read of \<open>h\<close> answers \<open>id\<close>
  from the cache.
\<close>

theorem SetBlockIDAtHeight_failed_put_cached:
  assumes "0 < Size (blkHeightsCache hi)"
    and "fault (db hi) (OpPut (GetEntryKey h)) = Some n"
  shows "fst (SetBlockIDAtHeight hi h blkID) = Some (ErrStorage n)
    \<and> db (snd (SetBlockIDAtHeight hi h blkID)) = db hi
    \<and> fst (GetBlockIDAtHeight (snd (SetBlockIDAtHeight hi h blkID)) h) = Inr blkID"
  using assms
  by (simp add: SetBlockIDAtHeight_def GetBlockIDAtHeight_def db_Put_def lru_Put_def lru_Get_def
      Let_def map_of_take_front)

theorem SetBlockIDAtHeight_failed_put_cached_witness:
  "fst (SetBlockIDAtHeight (New putFailsDB) 7 (mkID 1)) = Some (ErrStorage 0)
   \<and> db_Get (db (snd (SetBlockIDAtHeight (New putFailsDB) 7 (mkID 1)))) (GetEntryKey 7) = Inl ErrNotFound
   \<and> fst (GetBlockIDAtHeight (snd (SetBlockIDAtHeight (New putFailsDB) 7 (mkID 1))) 7) = Inr (mkID 1)"
proof -
  have a: "0 < Size (blkHeightsCache (New putFailsDB))"
    by (simp add: New_def cacheSize_def)
  have b: "fault (db (New putFailsDB)) (OpPut (GetEntryKey 7)) = Some 0"
    by (simp add: New_def putFailsDB_def)
  have c: "db_Get (db (New putFailsDB)) (GetEntryKey 7) = Inl ErrNotFound"
    by (simp add: New_def putFailsDB_def db_Get_def)
  show ?thesis
    using SetBlockIDAtHeight_failed_put_cached[OF a b, of "mkID 1"] c by simp
qed

section \<open>The should-repair probe\<close>

text \<open>
  Claim C1, as stated, ends with "otherwise it stages the checkpoint and reports that
  repair starts at the last accepted block". That fails where a read fails: with an
  empty store and a block server that cannot serve the last accepted block, and with a
  store whose reads fail, the probe returns the error with the empty identifier and
  stages nothing.
\<close>

theorem shouldRepair_otherwise_counterexample:
  "contents (db (indexState hIndex_noBlocks)) = Map.empty
   \<and> GetCheckpoint (indexState hIndex_noBlocks) = Inl ErrNotFound
   \<and> shouldRepair hIndex_noBlocks = ((True, Empty, Some ErrGetBlk), hIndex_noBlocks)
   \<and> writes (batch hIndex_noBlocks) = []
   \<and> LastAcceptedBlkID (server hIndex_noBlocks) \<noteq> Empty
   \<and> contents (db (indexState hIndex_unreadable)) = Map.empty
   \<and> GetCheckpoint (indexState hIndex_unreadable) = Inl (ErrStorage 0)
   \<and> shouldRepair hIndex_unreadable = ((True, Empty, Some (ErrStorage 0)), hIndex_unreadable)
   \<and> writes (batch hIndex_unreadable) = []
   \<and> LastAcceptedBlkID (server hIndex_unreadable) \<noteq> Empty"
  by (simp add: hIndex_noBlocks_def hIndex_unreadable_def unreadableDB_def eval_defs ck_bytes)

text \<open>
  Claim C1, amended. If \<open>GetCheckpoint\<close> returns a checkpoint, repair is needed from it
  and nothing changes. If it returns not-found, the last accepted block is fetched: when
  the entry for its height is found the done flag is set and no repair is needed; when
  that entry is not found, the checkpoint \<open>lastAcceptedBlkID\<close> is staged in the batch
  and repair starts there. If \<open>GetCheckpoint\<close>, \<open>GetBlk\<close> or the entry lookup fails
  with another error, that error is returned with the empty identifier, nothing is
  staged and the flag is unchanged. The store is never written.
\<close>

theorem shouldRepair_cases:
  "(GetCheckpoint (indexState hi) = Inr cp \<longrightarrow> shouldRepair hi = ((True, cp, None), hi))
   \<and> (GetCheckpoint (indexState hi) = Inl ErrNotFound
        \<and> GetBlk (server hi) (LastAcceptedBlkID (server hi)) = Inr blk
        \<and> fst (GetBlockIDAtHeight (indexState hi) (HeightV blk)) = Inr v \<longrightarrow>
      fst (shouldRepair hi) = (False, Empty, None)
        \<and> IsRepaired (snd (shouldRepair hi))
        \<and> batch (snd (shouldRepair hi)) = batch hi
        \<and> db (indexState (snd (shouldRepair hi))) = db (indexState hi))
   \<and> (GetCheckpoint (indexState hi) = Inl ErrNotFound
        \<and> GetBlk (server hi) (LastAcceptedBlkID (server hi)) = Inr blk
        \<and> fst (GetBlockIDAtHeight (indexState hi) (HeightV blk)) = Inl ErrNotFound \<longrightarrow>
      fst (shouldRepair hi) = (True, LastAcceptedBlkID (server hi), None)
        \<and> writes (batch (snd (shouldRepair hi))) =
            writes (batch hi) @ [BatchPut GetCheckpointKey (id_bytes (LastAcceptedBlkID (server hi)))]
        \<and> jobDone (snd (shouldRepair hi)) = jobDone hi
        \<and> db (indexState (snd (shouldRepair hi))) = db (indexState hi))
   \<and> (GetCheckpoint (indexState hi) = Inl err \<and> err \<noteq> ErrNotFound \<longrightarrow>
      shouldRepair hi = ((True, Empty, Some err), hi))
   \<and> (GetCheckpoint (indexState hi) = Inl ErrNotFound
        \<and> GetBlk (server hi) (LastAcceptedBlkID (server hi)) = Inl err \<longrightarrow>
      shouldRepair hi = ((True, Empty, Some err), hi))
   \<and> (GetCheckpoint (indexState hi) = Inl ErrNotFound
        \<and> GetBlk (server hi) (LastAcceptedBlkID (server hi)) = Inr blk
        \<and> fst (GetBlockIDAtHeight (indexState hi) (HeightV blk)) = Inl err \<and> err \<noteq> ErrNotFound \<longrightarrow>
      fst (shouldRepair hi) = (True, Empty, Some err)
        \<and> batch (snd (shouldRepair hi)) = batch hi
        \<and> jobDone (snd (shouldRepair hi)) = jobDone hi
        \<and> db (indexState (snd (shouldRepair hi))) = db (indexState hi))"
proof -
  obtain r ix where g: "GetBlockIDAtHeight (indexState hi) (HeightV blk) = (r, ix)"
    by (cases "GetBlockIDAtHeight (indexState hi) (HeightV blk)")
  have d: "db ix = db (indexState hi)"
    using db_GetBlockIDAtHeight[of "indexState hi" "HeightV blk"] g by simp
  show ?thesis
    using g d by (simp add: shouldRepair_def Let_def batch_Put_def IsRepaired_def)
qed

theorem shouldRepair_cases_witness:
  "shouldRepair hRestart = ((True, mkID 1, None), hRestart)
   \<and> fst (shouldRepair hIndex_complete) = (False, Empty, None)
   \<and> IsRepaired (snd (shouldRepair hIndex_complete))
   \<and> fst (shouldRepair hIndex) = (True, mkID 2, None)
   \<and> writes (batch (snd (shouldRepair hIndex))) = [BatchPut GetCheckpointKey (id_bytes (mkID 2))]
   \<and> shouldRepair hIndex_unreadable = ((True, Empty, Some (ErrStorage 0)), hIndex_unreadable)
   \<and> shouldRepair hIndex_noBlocks = ((True, Empty, Some ErrGetBlk), hIndex_noBlocks)"
proof -
  have a: "GetCheckpoint (indexState hRestart) = Inr (mkID 1)"
    by (simp add: hRestart_def crashedDB_def eval_defs ek0 ek1 ck_bytes)
  have b: "GetCheckpoint (indexState hIndex_complete) = Inl ErrNotFound
      \<and> GetBlk (server hIndex_complete) (LastAcceptedBlkID (server hIndex_complete)) = Inr blk1
      \<and> fst (GetBlockIDAtHeight (indexState hIndex_complete) (HeightV blk1)) = Inr (mkID 2)"
    by (simp add: hIndex_complete_def indexedDB_def eval_defs ek0 ek1 ck_bytes)
  have c: "GetCheckpoint (indexState hIndex) = Inl ErrNotFound
      \<and> GetBlk (server hIndex) (LastAcceptedBlkID (server hIndex)) = Inr blk1
      \<and> fst (GetBlockIDAtHeight (indexState hIndex) (HeightV blk1)) = Inl ErrNotFound"
    by (simp add: eval_defs ek0 ek1 ck_bytes)
  have d: "GetCheckpoint (indexState hIndex_unreadable) = Inl (ErrStorage 0)"
    by (simp add: hIndex_unreadable_def unreadableDB_def eval_defs ck_bytes)
  have e: "GetCheckpoint (indexState hIndex_noBlocks) = Inl ErrNotFound
      \<and> GetBlk (server hIndex_noBlocks) (LastAcceptedBlkID (server hIndex_noBlocks)) = Inl ErrGetBlk"
    by (simp add: hIndex_noBlocks_def eval_defs ck_bytes)
  have w: "writes (batch hIndex) = []" "LastAcceptedBlkID (server hIndex) = mkID 2"
    by (simp_all add: eval_defs)
  show ?thesis
    using shouldRepair_cases[of hRestart "mkID 1"] a
      shouldRepair_cases[of hIndex_complete _ blk1 "mkID 2"] b
      shouldRepair_cases[of hIndex _ blk1] c w
      shouldRepair_cases[of hIndex_unreadable _ _ _ "ErrStorage 0"] d
      shouldRepair_cases[of hIndex_noBlocks _ _ _ ErrGetBlk] e
    by simp
qed

section \<open>The backward walk\<close>

lemma doRepair_exit: "doRepair_body hi cur = Inl res \<Longrightarrow> doRepair hi cur = Some res"
  by (subst doRepair.simps) simp

lemma doRepair_continue: "doRepair_body hi cur = Inr (hi', n) \<Longrightarrow> doRepair hi cur = doRepair hi' n"
  by (subst doRepair.simps) simp

lemma doRepair_steps_continue:
  "doRepair_steps n hi cur = Inr (hi', cur') \<Longrightarrow> doRepair hi cur = doRepair hi' cur'"
proof (induction n arbitrary: hi cur)
  case 0
  then show ?case by simp
next
  case (Suc n)
  show ?case
  proof (cases "doRepair_body hi cur")
    case (Inl res)
    with Suc.prems show ?thesis by simp
  next
    case (Inr p)
    obtain h c where p: "p = (h, c)" by (cases p)
    with Inr Suc.prems have "doRepair_steps n h c = Inr (hi', cur')" by simp
    then have "doRepair h c = doRepair hi' cur'" by (rule Suc.IH)
    moreover have "doRepair hi cur = doRepair h c"
      using Inr p by (simp add: doRepair_continue)
    ultimately show ?thesis by simp
  qed
qed

lemma doRepair_body_NotFound:
  "GetBlk (server hi) cur = Inl ErrNotFound \<Longrightarrow>
   doRepair_body hi cur = Inl (Return None, staged_deletion hi)"
  by (simp add: doRepair_body_def batch_Delete_def staged_deletion_def)

lemma doRepair_NotFound:
  assumes "doRepair_steps n hi start = Inr (hi_n, cur)"
    and "GetBlk (server hi_n) cur = Inl ErrNotFound"
  shows "doRepair hi start = Some (Return None, staged_deletion hi_n)"
  using doRepair_steps_continue[OF assms(1)] doRepair_exit[OF doRepair_body_NotFound[OF assms(2)]]
  by simp

lemma GetCheckpoint_after_commit:
  assumes "fst (write_batch (staged_deletion hi)) = None"
    and "fault (db (indexState hi)) (OpGet GetCheckpointKey) = None"
  shows "GetCheckpoint (indexState (snd (write_batch (staged_deletion hi)))) = Inl ErrNotFound"
  using assms
  by (auto simp add: write_batch_def batch_Write_def staged_deletion_def GetCheckpoint_def db_Get_def
      split: option.splits)

lemma GetCheckpoint_after_failed_commit:
  assumes "fst (write_batch (staged_deletion hi)) = Some err"
  shows "GetCheckpoint (indexState (snd (write_batch (staged_deletion hi)))) = GetCheckpoint (indexState hi)"
  using assms
  by (auto simp add: write_batch_def batch_Write_def staged_deletion_def GetCheckpoint_def
      split: option.splits)

lemma IsRepaired_write_batch_staged: "IsRepaired (snd (write_batch (staged_deletion hi)))"
  by (simp add: write_batch_def IsRepaired_def staged_deletion_def split: prod.splits)

section \<open>An already indexed height in the walk\<close>

lemma doRepair_body_indexed:
  assumes "GetBlk (server hi) cur = Inr blk"
    and "fst (GetBlockIDAtHeight (indexState hi) (HeightV blk)) = Inr v"
    and "\<not> assertions (log hi)"
  shows "doRepair_body hi cur =
    Inr (hi\<lparr>indexState := snd (GetBlockIDAtHeight (indexState hi) (HeightV blk))\<rparr>, cur)"
  using assms
  by (cases "GetBlockIDAtHeight (indexState hi) (HeightV blk)") (simp add: doRepair_body_def AssertTrue_def)

lemma doRepair_body_indexed_panic:
  assumes "GetBlk (server hi) cur = Inr blk"
    and "fst (GetBlockIDAtHeight (indexState hi) (HeightV blk)) = Inr v"
    and "assertions (log hi)"
  shows "doRepair_body hi cur =
    Inl (Panic, hi\<lparr>indexState := snd (GetBlockIDAtHeight (indexState hi) (HeightV blk))\<rparr>)"
  using assms
  by (cases "GetBlockIDAtHeight (indexState hi) (HeightV blk)") (simp add: doRepair_body_def AssertTrue_def)

lemma doRepair_not_indexed:
  assumes "doRepair hi cur = Some y"
  shows "\<not> (\<exists>blk v. GetBlk (server hi) cur = Inr blk
            \<and> fst (GetBlockIDAtHeight (indexState hi) (HeightV blk)) = Inr v
            \<and> \<not> assertions (log hi))"
proof (rule doRepair.raw_induct[where P = "\<lambda>hi cur y. \<not> (\<exists>blk v. GetBlk (server hi) cur = Inr blk
            \<and> fst (GetBlockIDAtHeight (indexState hi) (HeightV blk)) = Inr v
            \<and> \<not> assertions (log hi))", OF _ assms])
  fix f hi cur y
  assume IH: "\<And>hi cur y. f hi cur = Some y \<Longrightarrow>
      \<not> (\<exists>blk v. GetBlk (server hi) cur = Inr blk
            \<and> fst (GetBlockIDAtHeight (indexState hi) (HeightV blk)) = Inr v
            \<and> \<not> assertions (log hi))"
    and eq: "(case doRepair_body hi cur of Inl res \<Rightarrow> Some res | Inr (hi', next) \<Rightarrow> f hi' next) = Some y"
  show "\<not> (\<exists>blk v. GetBlk (server hi) cur = Inr blk
            \<and> fst (GetBlockIDAtHeight (indexState hi) (HeightV blk)) = Inr v
            \<and> \<not> assertions (log hi))"
  proof
    assume "\<exists>blk v. GetBlk (server hi) cur = Inr blk
            \<and> fst (GetBlockIDAtHeight (indexState hi) (HeightV blk)) = Inr v
            \<and> \<not> assertions (log hi)"
    then obtain blk v where b: "GetBlk (server hi) cur = Inr blk"
      and g: "fst (GetBlockIDAtHeight (indexState hi) (HeightV blk)) = Inr v"
      and a: "\<not> assertions (log hi)" by blast
    let ?hi' = "hi\<lparr>indexState := snd (GetBlockIDAtHeight (indexState hi) (HeightV blk))\<rparr>"
    have "doRepair_body hi cur = Inr (?hi', cur)"
      using b g a by (rule doRepair_body_indexed)
    with eq have "f ?hi' cur = Some y" by simp
    from IH[OF this] have n: "\<not> (\<exists>blk v. GetBlk (server ?hi') cur = Inr blk
            \<and> fst (GetBlockIDAtHeight (indexState ?hi') (HeightV blk)) = Inr v
            \<and> \<not> assertions (log ?hi'))" .
    have "fst (GetBlockIDAtHeight (indexState ?hi') (HeightV blk)) = Inr v"
      using GetBlockIDAtHeight_again[OF g] by simp
    with n b a show False by auto
  qed
qed

text \<open>
  Claim C3 says that at a block whose height already has an entry \<^verbatim>\<open>doRepair\<close> logs
  the assertion failure and stops, without looping on the same block. The code calls
  \<open>AssertTrue\<close> and then starts the next turn of the loop with the same cursor. So with
  a logger that does not panic on a failed assertion the walk never returns; with one that
  does, the goroutine panics. It never returns an error or nil from there.
\<close>

theorem doRepair_indexed_block_never_returns:
  assumes "GetBlk (server hi) cur = Inr blk"
    and "fst (GetBlockIDAtHeight (indexState hi) (HeightV blk)) = Inr v"
  shows "doRepair hi cur =
    (if assertions (log hi)
     then Some (Panic, hi\<lparr>indexState := snd (GetBlockIDAtHeight (indexState hi) (HeightV blk))\<rparr>)
     else None)"
proof (cases "assertions (log hi)")
  case True
  then show ?thesis
    using doRepair_exit[OF doRepair_body_indexed_panic[OF assms]] by simp
next
  case False
  show ?thesis
  proof (cases "doRepair hi cur")
    case None
    with False show ?thesis by simp
  next
    case (Some y)
    from doRepair_not_indexed[OF this] assms False show ?thesis by blast
  qed
qed

theorem doRepair_indexed_block_never_returns_witness:
  "fst (shouldRepair hRestart) = (True, mkID 1, None)
   \<and> GetBlk (server hRestart) (mkID 1) = Inr genesisBlk
   \<and> fst (GetBlockIDAtHeight (indexState hRestart) (HeightV genesisBlk)) = Inr (mkID 1)
   \<and> doRepair hRestart (mkID 1) = None
   \<and> RepairHeightIndex hRestart = None"
proof -
  have a: "GetBlk (server hRestart) (mkID 1) = Inr genesisBlk"
    by (simp add: hRestart_def newHeightIndexer_def GetBlk_def blkSrv_def)
  have b: "fst (GetBlockIDAtHeight (indexState hRestart) (HeightV genesisBlk)) = Inr (mkID 1)"
    by (simp add: hRestart_def crashedDB_def eval_defs ek0 ek1 ck_bytes)
  have c: "\<not> assertions (log hRestart)"
    by (simp add: hRestart_def newHeightIndexer_def NoLog_def)
  have d: "shouldRepair hRestart = ((True, mkID 1, None), hRestart)"
    by (simp add: hRestart_def crashedDB_def eval_defs ek0 ek1 ck_bytes)
  have w: "write_batch hRestart = (None, hRestart)"
    by (simp add: hRestart_def crashedDB_def newHeightIndexer_def NewBatch_def New_def
        write_batch_def batch_Write_def)
  have n: "doRepair hRestart (mkID 1) = None"
    using doRepair_indexed_block_never_returns[OF a b] c by simp
  have "RepairHeightIndex hRestart = None"
    using d w n by (simp add: RepairHeightIndex_def)
  then show ?thesis using a b d n by simp
qed

section \<open>Repair completeness\<close>

text \<open>
  On a store that does not fail, a run of \<^verbatim>\<open>RepairHeightIndex\<close> over a chain whose
  heights are not indexed yet returns \<^verbatim>\<open>nil\<close>, marks the job done, leaves no
  checkpoint and makes every block of the chain readable at its height, whatever the
  commit threshold is.
\<close>

lemma indexed_eq_off_ck: "eq_off_ck m m' \<Longrightarrow> indexed cur bs m = indexed cur bs m'"
proof (induction bs arbitrary: cur m m')
  case Nil
  then show ?case by (auto simp add: eq_off_ck_def fun_eq_iff)
next
  case (Cons b bs)
  have "eq_off_ck (m(GetEntryKey (HeightV b) \<mapsto> id_bytes cur)) (m'(GetEntryKey (HeightV b) \<mapsto> id_bytes cur))"
    using Cons.prems by (simp add: eq_off_ck_def)
  then show ?case using Cons.IH by simp
qed

lemma foldl_apply_op_other:
  "list_all (\<lambda>w. batch_key w \<noteq> k) ws \<Longrightarrow> foldl apply_op m ws k = m k"
proof (induction ws arbitrary: m)
  case Nil
  then show ?case by simp
next
  case (Cons w ws)
  then show ?case by (cases w) auto
qed

lemma foldl_apply_op_changed:
  "foldl apply_op m ws k \<noteq> m k \<Longrightarrow> k \<in> batch_key ` set ws"
  using foldl_apply_op_other[of k ws m] by (auto simp add: list_all_iff)

lemma GetBlockIDAtHeight_unseen:
  assumes "fault (db ix) = (\<lambda>_. None)"
    and "contents (db ix) (GetEntryKey h) = None"
    and "map_of (elements (blkHeightsCache ix)) (GetEntryKey h) = None"
  shows "GetBlockIDAtHeight ix h = (Inl ErrNotFound, ix)"
  using assms by (simp add: GetBlockIDAtHeight_def lru_Get_def db_Get_def Let_def)

lemma doRepair_body_unseen:
  assumes b: "GetBlk (server hi) cur = Inr b"
    and p: "(\<exists>b'. GetBlk (server hi) (ParentV b) = Inr b') \<or> GetBlk (server hi) (ParentV b) = Inl ErrNotFound"
    and f: "fault (db (indexState hi)) = (\<lambda>_. None)"
    and c: "contents (db (indexState hi)) (GetEntryKey (HeightV b)) = None"
    and m: "map_of (elements (blkHeightsCache (indexState hi))) (GetEntryKey (HeightV b)) = None"
  shows "\<exists>hi1. doRepair_body hi cur = Inr (hi1, ParentV b)
      \<and> server hi1 = server hi
      \<and> fault (db (indexState hi1)) = (\<lambda>_. None)
      \<and> blkHeightsCache (indexState hi1) = blkHeightsCache (indexState hi)
      \<and> eq_off_ck (effective hi1) ((effective hi)(GetEntryKey (HeightV b) \<mapsto> id_bytes cur))
      \<and> (\<forall>k. contents (db (indexState hi1)) k \<noteq> contents (db (indexState hi)) k \<longrightarrow>
             k = GetCheckpointKey \<or> k = GetEntryKey (HeightV b) \<or> k \<in> batch_key ` set (writes (batch hi)))
      \<and> batch_key ` set (writes (batch hi1)) \<subseteq>
           insert GetCheckpointKey (insert (GetEntryKey (HeightV b)) (batch_key ` set (writes (batch hi))))"
proof -
  let ?key = "GetEntryKey (HeightV b)"
  let ?hi1 = "hi\<lparr>indexState := indexState hi, batch := (batch hi)\<lparr>writes := writes (batch hi) @ [BatchPut ?key (id_bytes cur)]\<rparr>\<rparr>"
  have g: "GetBlockIDAtHeight (indexState hi) (HeightV b) = (Inl ErrNotFound, indexState hi)"
    using f c m by (rule GetBlockIDAtHeight_unseen)
  have e1: "effective ?hi1 = (effective hi)(?key \<mapsto> id_bytes cur)"
    by (simp add: effective_def)
  show ?thesis
  proof (cases "batch_Size (batch ?hi1) > commitMaxSize ?hi1")
    case False
    then have "doRepair_body hi cur = Inr (?hi1, ParentV b)"
      using b g by (simp add: doRepair_body_def batch_Put_def Let_def)
    then show ?thesis using f e1 by (auto simp add: eq_off_ck_def)
  next
    case True
    from p show ?thesis
    proof
      assume "GetBlk (server hi) (ParentV b) = Inl ErrNotFound"
      then have dc: "doCheckpoint ?hi1 b = (None, ?hi1)"
        by (simp add: doCheckpoint_def)
      let ?hi3 = "?hi1\<lparr>indexState := (indexState hi)\<lparr>db := (db (indexState hi))\<lparr>contents := effective ?hi1\<rparr>\<rparr>,
                       batch := \<lparr>writes = []\<rparr>\<rparr>"
      have "doRepair_body hi cur = Inr (?hi3, ParentV b)"
        using b g True dc f
        by (simp add: doRepair_body_def batch_Put_def Let_def write_batch_def batch_Write_def
            batch_Reset_def effective_def)
      moreover have "effective ?hi3 = effective ?hi1" by (simp add: effective_def)
      moreover have "\<forall>k. effective ?hi1 k \<noteq> contents (db (indexState hi)) k \<longrightarrow>
             k = ?key \<or> k \<in> batch_key ` set (writes (batch hi))"
        using foldl_apply_op_changed[of "contents (db (indexState hi))" "writes (batch hi)"]
        by (auto simp add: e1 effective_def)
      ultimately show ?thesis using f e1 by (auto simp add: eq_off_ck_def)
    next
      assume "\<exists>b'. GetBlk (server hi) (ParentV b) = Inr b'"
      then obtain b' where b': "GetBlk (server hi) (ParentV b) = Inr b'" by blast
      let ?hi2 = "?hi1\<lparr>batch := (batch hi)\<lparr>writes := writes (batch hi) @ [BatchPut ?key (id_bytes cur),
                      BatchPut GetCheckpointKey (id_bytes (IDV b'))]\<rparr>\<rparr>"
      have dc: "doCheckpoint ?hi1 b = (None, ?hi2)"
        using b' by (simp add: doCheckpoint_def batch_Put_def)
      have e2: "effective ?hi2 = (effective hi)(?key \<mapsto> id_bytes cur, GetCheckpointKey \<mapsto> id_bytes (IDV b'))"
        by (simp add: effective_def)
      let ?hi3 = "?hi2\<lparr>indexState := (indexState hi)\<lparr>db := (db (indexState hi))\<lparr>contents := effective ?hi2\<rparr>\<rparr>,
                       batch := \<lparr>writes = []\<rparr>\<rparr>"
      have "doRepair_body hi cur = Inr (?hi3, ParentV b)"
        using b g True dc f
        by (simp add: doRepair_body_def batch_Put_def Let_def write_batch_def batch_Write_def
            batch_Reset_def effective_def)
      moreover have "effective ?hi3 = effective ?hi2" by (simp add: effective_def)
      moreover have "\<forall>k. effective ?hi2 k \<noteq> contents (db (indexState hi)) k \<longrightarrow>
             k = GetCheckpointKey \<or> k = ?key \<or> k \<in> batch_key ` set (writes (batch hi))"
        using foldl_apply_op_changed[of "contents (db (indexState hi))" "writes (batch hi)"]
        by (auto simp add: e2 effective_def)
      ultimately show ?thesis using f e2 by (auto simp add: eq_off_ck_def)
    qed
  qed
qed


lemma walkable_head:
  "walkable srv cur bs \<Longrightarrow> (\<exists>b'. GetBlk srv cur = Inr b') \<or> GetBlk srv cur = Inl ErrNotFound"
  by (cases bs) simp_all

lemma doRepair_walk:
  assumes "walkable (server hi) cur bs"
    and "distinct (map HeightV bs)"
    and "unwalked hi bs"
  shows "\<exists>hi'. doRepair hi cur = Some (Return None, hi')
      \<and> jobDone hi'
      \<and> server hi' = server hi
      \<and> fault (db (indexState hi')) = (\<lambda>_. None)
      \<and> blkHeightsCache (indexState hi') = blkHeightsCache (indexState hi)
      \<and> effective hi' = indexed cur bs (effective hi)"
  using assms
proof (induction bs arbitrary: hi cur)
  case Nil
  then have "doRepair_body hi cur = Inl (Return None, staged_deletion hi)"
    by (simp add: doRepair_body_def batch_Delete_def staged_deletion_def)
  then have "doRepair hi cur = Some (Return None, staged_deletion hi)"
    by (subst doRepair.simps) simp
  moreover have "effective (staged_deletion hi) = indexed cur [] (effective hi)"
    by (simp add: effective_def staged_deletion_def)
  moreover have "jobDone (staged_deletion hi)" "server (staged_deletion hi) = server hi"
    "fault (db (indexState (staged_deletion hi))) = (\<lambda>_. None)"
    "blkHeightsCache (indexState (staged_deletion hi)) = blkHeightsCache (indexState hi)"
    using Nil.prems(3) by (simp_all add: staged_deletion_def unwalked_def)
  ultimately show ?case by blast
next
  case (Cons b bs)
  let ?key = "GetEntryKey (HeightV b)"
  have b: "GetBlk (server hi) cur = Inr b" and w: "walkable (server hi) (ParentV b) bs"
    using Cons.prems(1) by simp_all
  have f: "fault (db (indexState hi)) = (\<lambda>_. None)"
    and c: "contents (db (indexState hi)) ?key = None"
    and m: "map_of (elements (blkHeightsCache (indexState hi))) ?key = None"
    using Cons.prems(3) by (simp_all add: unwalked_def)
  obtain hi1 where body: "doRepair_body hi cur = Inr (hi1, ParentV b)"
    and srv: "server hi1 = server hi"
    and f1: "fault (db (indexState hi1)) = (\<lambda>_. None)"
    and ch: "blkHeightsCache (indexState hi1) = blkHeightsCache (indexState hi)"
    and eq: "eq_off_ck (effective hi1) ((effective hi)(?key \<mapsto> id_bytes cur))"
    and cont: "\<forall>k. contents (db (indexState hi1)) k \<noteq> contents (db (indexState hi)) k \<longrightarrow>
             k = GetCheckpointKey \<or> k = ?key \<or> k \<in> batch_key ` set (writes (batch hi))"
    and keys: "batch_key ` set (writes (batch hi1)) \<subseteq>
           insert GetCheckpointKey (insert ?key (batch_key ` set (writes (batch hi))))"
    using doRepair_body_unseen[OF b walkable_head[OF w] f c m] by blast
  have u1: "unwalked hi1 bs"
    unfolding unwalked_def list_all_iff
  proof (intro conjI ballI)
    show "fault (db (indexState hi1)) = (\<lambda>_. None)" by (rule f1)
  next
    fix x assume x: "x \<in> set bs"
    let ?kx = "GetEntryKey (HeightV x)"
    have "HeightV x \<noteq> HeightV b"
      using Cons.prems(2) x by (metis distinct.simps(2) image_eqI list.simps(9) set_map)
    then have ne: "?kx \<noteq> ?key"
      by (simp add: GetEntryKey_inject)
    have nck: "?kx \<noteq> GetCheckpointKey" by (simp add: GetEntryKey_neq_GetCheckpointKey)
    have ux: "contents (db (indexState hi)) ?kx = None
        \<and> map_of (elements (blkHeightsCache (indexState hi))) ?kx = None
        \<and> (\<forall>w\<in>set (writes (batch hi)). batch_key w \<noteq> ?kx)"
      using Cons.prems(3) x by (simp add: unwalked_def list_all_iff)
    have old: "contents (db (indexState hi)) ?kx = None"
      "map_of (elements (blkHeightsCache (indexState hi))) ?kx = None"
      using ux by simp_all
    have old3: "?kx \<notin> batch_key ` set (writes (batch hi))"
      using ux by (metis imageE)
    show "contents (db (indexState hi1)) ?kx = None"
      using cont ne nck old(1) old3 by metis
    show "map_of (elements (blkHeightsCache (indexState hi1))) ?kx = None"
      using ch old by simp
    fix w' assume "w' \<in> set (writes (batch hi1))"
    then have mem: "batch_key w' \<in> insert GetCheckpointKey (insert ?key (batch_key ` set (writes (batch hi))))"
      using keys by blast
    show "batch_key w' \<noteq> ?kx"
    proof
      assume "batch_key w' = ?kx"
      then have "?kx \<in> insert GetCheckpointKey (insert ?key (batch_key ` set (writes (batch hi))))"
        using mem by simp
      then show False using ne nck old3 by simp
    qed
  qed
  have w1: "walkable (server hi1) (ParentV b) bs" using w srv by simp
  have d1: "distinct (map HeightV bs)" using Cons.prems(2) by simp
  obtain hi' where r: "doRepair hi1 (ParentV b) = Some (Return None, hi')"
    and j: "jobDone hi'" and s': "server hi' = server hi1"
    and f': "fault (db (indexState hi')) = (\<lambda>_. None)"
    and c': "blkHeightsCache (indexState hi') = blkHeightsCache (indexState hi1)"
    and e': "effective hi' = indexed (ParentV b) bs (effective hi1)"
    using Cons.IH[OF w1 d1 u1] by blast
  have "doRepair hi cur = Some (Return None, hi')"
    using body r by (subst doRepair.simps) simp
  moreover have "effective hi' = indexed cur (b # bs) (effective hi)"
    using e' indexed_eq_off_ck[OF eq] by simp
  ultimately show ?case using j s' srv f' c' ch by simp
qed


lemma indexed_other:
  "k \<noteq> GetCheckpointKey \<Longrightarrow> k \<notin> GetEntryKey ` HeightV ` set bs \<Longrightarrow> indexed cur bs m k = m k"
  by (induction bs arbitrary: cur m) auto

lemma indexed_checkpoint: "indexed cur bs m GetCheckpointKey = None"
  by (induction bs arbitrary: cur m) simp_all

lemma indexed_covers:
  assumes "walkable srv cur bs" and "distinct (map HeightV bs)" and "x \<in> set bs"
  shows "\<exists>i. GetBlk srv i = Inr x \<and> indexed cur bs m (GetEntryKey (HeightV x)) = Some (id_bytes i)"
  using assms
proof (induction bs arbitrary: cur m)
  case Nil
  then show ?case by simp
next
  case (Cons b bs)
  show ?case
  proof (cases "x = b")
    case True
    have "GetEntryKey (HeightV b) \<notin> GetEntryKey ` HeightV ` set bs"
      using Cons.prems(2) by (auto simp add: GetEntryKey_inject)
    then have "indexed (ParentV b) bs (m(GetEntryKey (HeightV b) \<mapsto> id_bytes cur)) (GetEntryKey (HeightV b))
        = Some (id_bytes cur)"
      using indexed_other[of "GetEntryKey (HeightV b)" bs "ParentV b"] 
      by (simp add: GetEntryKey_neq_GetCheckpointKey)
    then show ?thesis using True Cons.prems(1) by auto
  next
    case False
    then have "x \<in> set bs" using Cons.prems(3) by simp
    then show ?thesis using Cons.IH[of "ParentV b"] Cons.prems(1,2) by simp
  qed
qed

lemma GetBlockIDAtHeight_stored:
  assumes "fault (db ix) = (\<lambda>_. None)"
    and "contents (db ix) (GetEntryKey h) = Some (id_bytes i)"
    and "map_of (elements (blkHeightsCache ix)) (GetEntryKey h) = None"
  shows "fst (GetBlockIDAtHeight ix h) = Inr i"
  using assms by (simp add: GetBlockIDAtHeight_def lru_Get_def db_Get_def Let_def split: prod.splits)

theorem RepairHeightIndex_completes:
  assumes w: "walkable (server hi) (LastAcceptedBlkID (server hi)) (b # bs)"
    and d: "distinct (map HeightV (b # bs))"
    and u: "unwalked hi (b # bs)"
    and e: "writes (batch hi) = []"
    and nc: "contents (db (indexState hi)) GetCheckpointKey = None"
  shows "\<exists>hi'. RepairHeightIndex hi = Some (Return None, hi')
      \<and> IsRepaired hi'
      \<and> GetCheckpoint (indexState hi') = Inl ErrNotFound
      \<and> (\<forall>x\<in>set (b # bs). \<exists>i. GetBlk (server hi) i = Inr x
            \<and> fst (GetBlockIDAtHeight (indexState hi') (HeightV x)) = Inr i)"
proof -
  let ?L = "LastAcceptedBlkID (server hi)"
  let ?ck = GetCheckpointKey
  have f: "fault (db (indexState hi)) = (\<lambda>_. None)" using u by (simp add: unwalked_def)
  have gb: "GetBlk (server hi) ?L = Inr b" using w by simp
  have c: "contents (db (indexState hi)) (GetEntryKey (HeightV b)) = None"
    and m: "map_of (elements (blkHeightsCache (indexState hi))) (GetEntryKey (HeightV b)) = None"
    using u by (simp_all add: unwalked_def)
  let ?hi1 = "hi\<lparr>indexState := indexState hi, batch := (batch hi)\<lparr>writes := [BatchPut ?ck (id_bytes ?L)]\<rparr>\<rparr>"
  have sr: "shouldRepair hi = ((True, ?L, None), ?hi1)"
    using f nc gb GetBlockIDAtHeight_unseen[OF f c m] e
    by (simp add: shouldRepair_def GetCheckpoint_def db_Get_def batch_Put_def Let_def)
  let ?hi2 = "?hi1\<lparr>indexState := (indexState hi)\<lparr>db := (db (indexState hi))\<lparr>contents :=
                 (contents (db (indexState hi)))(?ck \<mapsto> id_bytes ?L)\<rparr>\<rparr>\<rparr>"
  have wb: "write_batch ?hi1 = (None, ?hi2)"
    using f by (simp add: write_batch_def batch_Write_def)
  have u2: "unwalked ?hi2 (b # bs)"
    using u by (simp add: unwalked_def list_all_iff GetEntryKey_neq_GetCheckpointKey[symmetric]
        GetEntryKey_neq_GetCheckpointKey)
  have w2: "walkable (server ?hi2) ?L (b # bs)" using w by simp
  obtain hi3 where r: "doRepair ?hi2 ?L = Some (Return None, hi3)"
    and j: "jobDone hi3"
    and f3: "fault (db (indexState hi3)) = (\<lambda>_. None)"
    and c3: "blkHeightsCache (indexState hi3) = blkHeightsCache (indexState ?hi2)"
    and e3: "effective hi3 = indexed ?L (b # bs) (effective ?hi2)"
    using doRepair_walk[OF w2 d u2] by blast
  let ?hi4 = "hi3\<lparr>indexState := (indexState hi3)\<lparr>db := (db (indexState hi3))\<lparr>contents := effective hi3\<rparr>\<rparr>\<rparr>"
  have wb4: "write_batch hi3 = (None, ?hi4)"
    using f3 by (simp add: write_batch_def batch_Write_def effective_def)
  have run: "RepairHeightIndex hi = Some (Return None, ?hi4)"
    using sr wb r wb4 by (simp add: RepairHeightIndex_def)
  have ck: "GetCheckpoint (indexState ?hi4) = Inl ErrNotFound"
    using f3 e3 by (simp add: GetCheckpoint_def db_Get_def indexed_checkpoint)
  have ent: "\<exists>i. GetBlk (server hi) i = Inr x
            \<and> fst (GetBlockIDAtHeight (indexState ?hi4) (HeightV x)) = Inr i" if x: "x \<in> set (b # bs)" for x
  proof -
    obtain i where i: "GetBlk (server hi) i = Inr x"
      and s: "indexed ?L (b # bs) (effective ?hi2) (GetEntryKey (HeightV x)) = Some (id_bytes i)"
      using indexed_covers[OF w d x] by blast
    have mx: "map_of (elements (blkHeightsCache (indexState hi))) (GetEntryKey (HeightV x)) = None"
      using u x unfolding unwalked_def list_all_iff by blast
    have "fst (GetBlockIDAtHeight (indexState ?hi4) (HeightV x)) = Inr i"
      by (rule GetBlockIDAtHeight_stored) (use f3 s e3 c3 mx in simp_all)
    with i show ?thesis by blast
  qed
  show ?thesis using run j ck ent by (auto simp add: IsRepaired_def)
qed


lemma hIndex_chain:
  "walkable (server hIndex) (LastAcceptedBlkID (server hIndex)) [blk1, genesisBlk]"
  "distinct (map HeightV [blk1, genesisBlk])"
  "unwalked hIndex [blk1, genesisBlk]"
  "writes (batch hIndex) = []"
  "contents (db (indexState hIndex)) GetCheckpointKey = None"
  by (simp_all add: unwalked_def eval_defs)

lemma RepairHeightIndex_completes_hIndex:
  "\<exists>hi'. RepairHeightIndex hIndex = Some (Return None, hi')
      \<and> IsRepaired hi'
      \<and> GetCheckpoint (indexState hi') = Inl ErrNotFound
      \<and> fst (GetBlockIDAtHeight (indexState hi') 1) = Inr (mkID 2)
      \<and> fst (GetBlockIDAtHeight (indexState hi') 0) = Inr (mkID 1)"
proof -
  obtain hi' where r: "RepairHeightIndex hIndex = Some (Return None, hi')" "IsRepaired hi'"
    "GetCheckpoint (indexState hi') = Inl ErrNotFound"
    and a: "\<forall>x\<in>set [blk1, genesisBlk]. \<exists>i. GetBlk (server hIndex) i = Inr x
            \<and> fst (GetBlockIDAtHeight (indexState hi') (HeightV x)) = Inr i"
    using RepairHeightIndex_completes[OF hIndex_chain] by blast
  obtain i where i: "GetBlk (server hIndex) i = Inr blk1"
    "fst (GetBlockIDAtHeight (indexState hi') (HeightV blk1)) = Inr i"
    using a by auto
  obtain j where j: "GetBlk (server hIndex) j = Inr genesisBlk"
    "fst (GetBlockIDAtHeight (indexState hi') (HeightV genesisBlk)) = Inr j"
    using a by auto
  have "i = mkID 2" using i(1)
    by (simp add: hIndex_def newHeightIndexer_def blkSrv_def GetBlk_def genesisBlk_def blk1_def
        split: if_splits)
  moreover have "j = mkID 1" using j(1)
    by (simp add: hIndex_def newHeightIndexer_def blkSrv_def GetBlk_def genesisBlk_def blk1_def
        split: if_splits)
  ultimately show ?thesis using r i(2) j(2) by (simp add: blk1_def genesisBlk_def)
qed








lemma sr_hIndex:
  "shouldRepair hIndex =
     ((True, mkID 2, None),
      hIndex\<lparr>batch := \<lparr>writes = [BatchPut GetCheckpointKey (id_bytes (mkID 2))]\<rparr>\<rparr>)"
  by (simp add: eval_defs ek1 ek0 ck_bytes)

lemma sr_hIndex_undeletable:
  "shouldRepair hIndex_undeletable =
     ((True, mkID 2, None),
      hIndex_undeletable\<lparr>batch := \<lparr>writes = [BatchPut GetCheckpointKey (id_bytes (mkID 2))]\<rparr>\<rparr>)"
  by (simp add: hIndex_undeletable_def undeletableDB_def eval_defs ek1 ek0 ck_bytes)

lemma walk_hIndex_undeletable:
  "\<exists>hi2 hi_n.
      write_batch (hIndex_undeletable\<lparr>batch := \<lparr>writes = [BatchPut GetCheckpointKey (id_bytes (mkID 2))]\<rparr>\<rparr>)
        = (None, hi2)
      \<and> doRepair_steps 2 hi2 (mkID 2) = Inr (hi_n, Empty)
      \<and> GetBlk (server hi_n) Empty = Inl ErrNotFound
      \<and> writes (batch hi_n) = []
      \<and> fault (db (indexState hi_n)) = fault undeletableDB
      \<and> GetCheckpoint (indexState hi_n) = Inr (mkID 1)"
  by (auto simp add: numeral_2_eq_2 hIndex_undeletable_def undeletableDB_def eval_defs ek0 ek1 ck_bytes
      ToID_def id_bytes_def mkID_def[symmetric])

text \<open>
  Claim C2, as stated, has the final batch committed whenever the cursor has passed
  genesis. The commit is a write that can fail. On a store that fails the write of a
  batch staging a deletion, a run of \<^verbatim>\<open>RepairHeightIndex\<close> over the two-block chain
  commits the probe's checkpoint and both entries, \<^verbatim>\<open>doRepair\<close> passes genesis and
  returns nil with the flag set, and the final write fails: the run returns the storage
  error, and \<open>GetCheckpoint\<close> still returns the checkpoint.
\<close>

theorem doRepair_commit_counterexample:
  "\<exists>hi1 hi2 hi_n hi'.
      shouldRepair hIndex_undeletable = ((True, mkID 2, None), hi1)
      \<and> write_batch hi1 = (None, hi2)
      \<and> doRepair_steps 2 hi2 (mkID 2) = Inr (hi_n, Empty)
      \<and> GetBlk (server hi_n) Empty = Inl ErrNotFound
      \<and> doRepair hi2 (mkID 2) = Some (Return None, staged_deletion hi_n)
      \<and> RepairHeightIndex hIndex_undeletable = Some (Return (Some (ErrStorage 0)), hi')
      \<and> IsRepaired hi'
      \<and> GetCheckpoint (indexState hi') = Inr (mkID 1)"
proof -
  let ?hi1 = "hIndex_undeletable\<lparr>batch := \<lparr>writes = [BatchPut GetCheckpointKey (id_bytes (mkID 2))]\<rparr>\<rparr>"
  have s: "shouldRepair hIndex_undeletable = ((True, mkID 2, None), ?hi1)"
    by (rule sr_hIndex_undeletable)
  obtain hi2 hi_n where w: "write_batch ?hi1 = (None, hi2)"
    and st: "doRepair_steps 2 hi2 (mkID 2) = Inr (hi_n, Empty)"
    and nf: "GetBlk (server hi_n) Empty = Inl ErrNotFound"
    and e: "writes (batch hi_n) = []"
    and f: "fault (db (indexState hi_n)) = fault undeletableDB"
    and c: "GetCheckpoint (indexState hi_n) = Inr (mkID 1)"
    using walk_hIndex_undeletable by blast
  have d: "doRepair hi2 (mkID 2) = Some (Return None, staged_deletion hi_n)"
    using st nf by (rule doRepair_NotFound)
  have w4: "write_batch (staged_deletion hi_n) = (Some (ErrStorage 0), staged_deletion hi_n)"
    using e f by (simp add: write_batch_def batch_Write_def staged_deletion_def undeletableDB_def)
  have r: "RepairHeightIndex hIndex_undeletable = Some (Return (Some (ErrStorage 0)), staged_deletion hi_n)"
    using s w d w4 by (simp add: RepairHeightIndex_def)
  have "IsRepaired (staged_deletion hi_n)"
    "GetCheckpoint (indexState (staged_deletion hi_n)) = Inr (mkID 1)"
    using c by (simp_all add: staged_deletion_def IsRepaired_def)
  with s w st nf d r show ?thesis by blast
qed

text \<open>
  Claim C2, amended. Wherever the walk stands, when \<open>GetBlk\<close> returns not-found for the
  cursor (genesis has been passed) \<^verbatim>\<open>doRepair\<close> returns nil with the deletion of the
  checkpoint staged last in the batch and the done flag set. \<^verbatim>\<open>RepairHeightIndex\<close>
  then writes that batch: when the write succeeds it returns nil, \<open>GetCheckpoint\<close>
  returns not-found (a readable store given) and \<open>IsRepaired\<close> is true; when the write
  fails it returns the write's error, the checkpoint is as it was and \<open>IsRepaired\<close> is
  true all the same.
\<close>

theorem doRepair_genesis_passed:
  assumes "doRepair_steps n hi start = Inr (hi_n, cur)"
    and "GetBlk (server hi_n) cur = Inl ErrNotFound"
  shows "doRepair hi start = Some (Return None, staged_deletion hi_n)
    \<and> writes (batch (staged_deletion hi_n)) = writes (batch hi_n) @ [BatchDelete GetCheckpointKey]
    \<and> IsRepaired (staged_deletion hi_n)
    \<and> (\<forall>hi0 hi1. shouldRepair hi0 = ((True, start, None), hi1) \<and> write_batch hi1 = (None, hi) \<longrightarrow>
          RepairHeightIndex hi0 =
            (case write_batch (staged_deletion hi_n) of
               (Some err, hi4) \<Rightarrow> Some (Return (Some err), hi4)
             | (None, hi4) \<Rightarrow> Some (Return None, hi4)))
    \<and> IsRepaired (snd (write_batch (staged_deletion hi_n)))
    \<and> (fst (write_batch (staged_deletion hi_n)) = None
          \<and> fault (db (indexState hi_n)) (OpGet GetCheckpointKey) = None \<longrightarrow>
        GetCheckpoint (indexState (snd (write_batch (staged_deletion hi_n)))) = Inl ErrNotFound)
    \<and> (\<forall>err. fst (write_batch (staged_deletion hi_n)) = Some err \<longrightarrow>
        GetCheckpoint (indexState (snd (write_batch (staged_deletion hi_n))))
          = GetCheckpoint (indexState hi_n))"
proof -
  have d: "doRepair hi start = Some (Return None, staged_deletion hi_n)"
    using assms by (rule doRepair_NotFound)
  have r: "RepairHeightIndex hi0 =
            (case write_batch (staged_deletion hi_n) of
               (Some err, hi4) \<Rightarrow> Some (Return (Some err), hi4)
             | (None, hi4) \<Rightarrow> Some (Return None, hi4))"
    if "shouldRepair hi0 = ((True, start, None), hi1)" "write_batch hi1 = (None, hi)" for hi0 hi1
    using that d by (simp add: RepairHeightIndex_def)
  show ?thesis
    using d r IsRepaired_write_batch_staged[of hi_n] GetCheckpoint_after_commit[of hi_n]
      GetCheckpoint_after_failed_commit[of hi_n]
    by (simp add: staged_deletion_def IsRepaired_def)
qed

theorem doRepair_genesis_passed_witness:
  "(\<exists>hi'. RepairHeightIndex hIndex = Some (Return None, hi')
       \<and> GetCheckpoint (indexState hi') = Inl ErrNotFound \<and> IsRepaired hi')
   \<and> (\<exists>hi'. RepairHeightIndex hIndex_undeletable = Some (Return (Some (ErrStorage 0)), hi')
       \<and> GetCheckpoint (indexState hi') = Inr (mkID 1) \<and> IsRepaired hi')"
proof -
  let ?hi1 = "hIndex\<lparr>batch := \<lparr>writes = [BatchPut GetCheckpointKey (id_bytes (mkID 2))]\<rparr>\<rparr>"
  have s: "shouldRepair hIndex = ((True, mkID 2, None), ?hi1)" by (rule sr_hIndex)
  obtain hi2 where w: "write_batch ?hi1 = (None, hi2)"
    by (simp add: write_batch_def batch_Write_def hIndex_def newHeightIndexer_def New_def memDB_def)
  have "\<exists>hi_n. doRepair_steps 2 hi2 (mkID 2) = Inr (hi_n, Empty)
          \<and> GetBlk (server hi_n) Empty = Inl ErrNotFound
          \<and> fault (db (indexState hi_n)) = (\<lambda>_. None)"
    using w by (auto simp add: numeral_2_eq_2 eval_defs ek0 ek1 ck_bytes)
  then obtain hi_n where st: "doRepair_steps 2 hi2 (mkID 2) = Inr (hi_n, Empty)"
    and nf: "GetBlk (server hi_n) Empty = Inl ErrNotFound"
    and f1: "fault (db (indexState hi_n)) = (\<lambda>_. None)" by blast
  have c: "fst (write_batch (staged_deletion hi_n)) = None"
    using f1 by (simp add: write_batch_def batch_Write_def staged_deletion_def)
  then obtain hi4 where w4: "write_batch (staged_deletion hi_n) = (None, hi4)"
    by (cases "write_batch (staged_deletion hi_n)") simp
  have f2: "fault (db (indexState hi_n)) (OpGet GetCheckpointKey) = None" using f1 by simp
  from doRepair_genesis_passed[OF st nf] s w c f2 w4
  have a: "RepairHeightIndex hIndex = Some (Return None, hi4)
      \<and> GetCheckpoint (indexState hi4) = Inl ErrNotFound \<and> IsRepaired hi4"
    by simp
  let ?u1 = "hIndex_undeletable\<lparr>batch := \<lparr>writes = [BatchPut GetCheckpointKey (id_bytes (mkID 2))]\<rparr>\<rparr>"
  have us: "shouldRepair hIndex_undeletable = ((True, mkID 2, None), ?u1)"
    by (rule sr_hIndex_undeletable)
  obtain u2 u_n where uw: "write_batch ?u1 = (None, u2)"
    and ust: "doRepair_steps 2 u2 (mkID 2) = Inr (u_n, Empty)"
    and unf: "GetBlk (server u_n) Empty = Inl ErrNotFound"
    and ue: "writes (batch u_n) = []"
    and uf: "fault (db (indexState u_n)) = fault undeletableDB"
    and uc: "GetCheckpoint (indexState u_n) = Inr (mkID 1)"
    using walk_hIndex_undeletable by blast
  have uw4: "write_batch (staged_deletion u_n) = (Some (ErrStorage 0), staged_deletion u_n)"
    using ue uf by (simp add: write_batch_def batch_Write_def staged_deletion_def undeletableDB_def)
  from doRepair_genesis_passed[OF ust unf] us uw uw4 uc
  have b: "RepairHeightIndex hIndex_undeletable = Some (Return (Some (ErrStorage 0)), staged_deletion u_n)
      \<and> GetCheckpoint (indexState (staged_deletion u_n)) = Inr (mkID 1)
      \<and> IsRepaired (staged_deletion u_n)"
    by simp
  show ?thesis using a b by blast
qed

section \<open>The window between the return of the walk and the final commit\<close>

lemma GetCheckpoint_Inr_iff:
  "(\<exists>cp. GetCheckpoint ix = Inr cp) \<longleftrightarrow>
   fault (db ix) (OpGet GetCheckpointKey) = None
   \<and> (\<exists>v. contents (db ix) GetCheckpointKey = Some v \<and> length v = 32)"
  by (auto simp add: GetCheckpoint_def db_Get_def ToID_def split: option.splits if_splits)

lemma foldl_apply_op_keeps:
  assumes "list_all (\<lambda>w. case w of BatchDelete k \<Rightarrow> k \<noteq> ck
                          | BatchPut k v \<Rightarrow> k = ck \<longrightarrow> length v = 32) ws"
    and "\<exists>v. m ck = Some v \<and> length v = (32::nat)"
  shows "\<exists>v. foldl apply_op m ws ck = Some v \<and> length v = 32"
  using assms
proof (induction ws arbitrary: m)
  case Nil
  then show ?case by simp
next
  case (Cons w ws)
  have "\<exists>v. apply_op m w ck = Some v \<and> length v = 32"
    using Cons.prems by (cases w) auto
  moreover have "list_all (\<lambda>w. case w of BatchDelete k \<Rightarrow> k \<noteq> ck
                          | BatchPut k v \<Rightarrow> k = ck \<longrightarrow> length v = 32) ws"
    using Cons.prems by simp
  ultimately show ?case using Cons.IH[of "apply_op m w"] by simp
qed

lemma checkpoint_kept_write:
  assumes "checkpoint_kept hi" and "write_batch hi = (None, hi')"
  shows "checkpoint_kept hi'"
proof -
  from assms(1) have f: "fault (db (indexState hi)) (OpGet GetCheckpointKey) = None"
    and v: "\<exists>v. contents (db (indexState hi)) GetCheckpointKey = Some v \<and> length v = 32"
    and l: "list_all (\<lambda>w. case w of BatchDelete k \<Rightarrow> k \<noteq> GetCheckpointKey
                          | BatchPut k v \<Rightarrow> k = GetCheckpointKey \<longrightarrow> length v = 32)
         (writes (batch hi))"
    using GetCheckpoint_Inr_iff[of "indexState hi"] by (auto simp add: checkpoint_kept_def)
  from assms(2) have w: "fault (db (indexState hi)) (OpWrite (writes (batch hi))) = None"
    and h: "hi' = hi\<lparr>indexState := (indexState hi)\<lparr>db := (db (indexState hi))
              \<lparr>contents := foldl apply_op (contents (db (indexState hi))) (writes (batch hi))\<rparr>\<rparr>\<rparr>"
    by (auto simp add: write_batch_def batch_Write_def split: option.splits)
  have "\<exists>v. foldl apply_op (contents (db (indexState hi))) (writes (batch hi)) GetCheckpointKey = Some v
          \<and> length v = 32"
    using foldl_apply_op_keeps[where m = "contents (db (indexState hi))" and ck = GetCheckpointKey, OF l v] .
  then have "\<exists>cp. GetCheckpoint (indexState hi') = Inr cp"
    using f h GetCheckpoint_Inr_iff[of "indexState hi'"] by simp
  then show ?thesis using l h by (simp add: checkpoint_kept_def)
qed

lemma checkpoint_kept_index:
  "checkpoint_kept hi \<Longrightarrow> db ix = db (indexState hi) \<Longrightarrow> checkpoint_kept (hi\<lparr>indexState := ix\<rparr>)"
  by (simp add: checkpoint_kept_def GetCheckpoint_def)

lemma checkpoint_kept_put:
  assumes "checkpoint_kept hi" and "k = GetCheckpointKey \<longrightarrow> length v = 32"
  shows "checkpoint_kept (hi\<lparr>batch := snd (batch_Put (batch hi) k v)\<rparr>)"
  using assms by (simp add: checkpoint_kept_def batch_Put_def)

lemma checkpoint_kept_reset:
  "checkpoint_kept hi \<Longrightarrow> checkpoint_kept (hi\<lparr>batch := batch_Reset (batch hi)\<rparr>)"
  by (simp add: checkpoint_kept_def batch_Reset_def)

lemma checkpoint_kept_doCheckpoint:
  assumes "checkpoint_kept hi" and "doCheckpoint hi blk = (None, hi')"
  shows "checkpoint_kept hi'"
proof (cases "GetBlk (server hi) (ParentV blk)")
  case (Inl err)
  with assms show ?thesis by (simp add: doCheckpoint_def split: if_splits)
next
  case (Inr b)
  with assms(2) have "hi' = hi\<lparr>batch := snd (batch_Put (batch hi) GetCheckpointKey (id_bytes (IDV b)))\<rparr>"
    by (simp add: doCheckpoint_def batch_Put_def Let_def)
  then show ?thesis using checkpoint_kept_put[OF assms(1), of GetCheckpointKey "id_bytes (IDV b)"] by simp
qed

lemma checkpoint_kept_body:
  assumes "checkpoint_kept hi" and "doRepair_body hi cur = Inr (hi', n)"
  shows "checkpoint_kept hi'"
proof (cases "GetBlk (server hi) cur")
  case (Inl err)
  with assms(2) show ?thesis by (simp add: doRepair_body_def batch_Delete_def split: if_splits)
next
  case (Inr blk)
  obtain r ix where g: "GetBlockIDAtHeight (indexState hi) (HeightV blk) = (r, ix)"
    by (cases "GetBlockIDAtHeight (indexState hi) (HeightV blk)")
  have d: "db ix = db (indexState hi)"
    using db_GetBlockIDAtHeight[of "indexState hi" "HeightV blk"] g by simp
  have k0: "checkpoint_kept (hi\<lparr>indexState := ix\<rparr>)"
    using assms(1) d by (rule checkpoint_kept_index)
  show ?thesis
  proof (cases r)
    case (Inr v)
    with assms(2) \<open>GetBlk (server hi) cur = Inr blk\<close> g k0 show ?thesis
      by (simp add: doRepair_body_def split: if_splits)
  next
    case (Inl err)
    let ?hi1 = "hi\<lparr>indexState := ix, batch := snd (batch_Put (batch hi) (GetEntryKey (HeightV blk)) (id_bytes cur))\<rparr>"
    have k1: "checkpoint_kept ?hi1"
      using checkpoint_kept_put[OF k0, of "GetEntryKey (HeightV blk)" "id_bytes cur"]
      by (simp add: GetEntryKey_neq_GetCheckpointKey)
    have e: "err = ErrNotFound"
      using assms(2) \<open>GetBlk (server hi) cur = Inr blk\<close> g Inl
      by (simp add: doRepair_body_def split: if_splits)
    show ?thesis
    proof (cases "batch_Size (batch ?hi1) > commitMaxSize ?hi1")
      case False
      then have "doRepair_body hi cur = Inr (?hi1, ParentV blk)"
        using \<open>GetBlk (server hi) cur = Inr blk\<close> g Inl e
        by (simp add: doRepair_body_def batch_Put_def Let_def)
      with assms(2) k1 show ?thesis by simp
    next
      case True
      obtain e2 hi2 where c: "doCheckpoint ?hi1 blk = (e2, hi2)" by (cases "doCheckpoint ?hi1 blk")
      obtain e3 hi3 where w: "write_batch hi2 = (e3, hi3)" by (cases "write_batch hi2")
      have b: "doRepair_body hi cur =
          (case e2 of Some err \<Rightarrow> Inl (Return (Some err), hi2)
           | None \<Rightarrow> (case e3 of Some err \<Rightarrow> Inl (Return (Some err), hi3)
                       | None \<Rightarrow> Inr (hi3\<lparr>batch := batch_Reset (batch hi3)\<rparr>, ParentV blk)))"
        using \<open>GetBlk (server hi) cur = Inr blk\<close> g Inl e True c w
        by (simp add: doRepair_body_def batch_Put_def Let_def split: option.splits)
      with assms(2) have e2: "e2 = None" and e3: "e3 = None"
        and h: "hi' = hi3\<lparr>batch := batch_Reset (batch hi3)\<rparr>"
        by (auto split: option.splits)
      have "checkpoint_kept hi2" using k1 c e2 checkpoint_kept_doCheckpoint by blast
      then have "checkpoint_kept hi3" using w e3 checkpoint_kept_write by blast
      then show ?thesis using h checkpoint_kept_reset by simp
    qed
  qed
qed

lemma doRepair_body_Return_None:
  "doRepair_body hi cur = Inl (Return None, hi') \<Longrightarrow> hi' = staged_deletion hi"
  by (auto simp add: doRepair_body_def batch_Delete_def batch_Put_def staged_deletion_def Let_def
      split: sum.splits if_splits prod.splits option.splits)

lemma doRepair_returns_nil:
  assumes "doRepair hi cur = Some y"
  shows "checkpoint_kept hi \<longrightarrow> (\<forall>hi'. y = (Return None, hi') \<longrightarrow>
           (\<exists>hi_n. checkpoint_kept hi_n \<and> hi' = staged_deletion hi_n))"
proof (rule doRepair.raw_induct[where P = "\<lambda>hi cur y. checkpoint_kept hi \<longrightarrow> (\<forall>hi'. y = (Return None, hi') \<longrightarrow>
           (\<exists>hi_n. checkpoint_kept hi_n \<and> hi' = staged_deletion hi_n))", OF _ assms])
  fix f hi cur y
  assume IH: "\<And>hi cur y. f hi cur = Some y \<Longrightarrow> checkpoint_kept hi \<longrightarrow> (\<forall>hi'. y = (Return None, hi') \<longrightarrow>
           (\<exists>hi_n. checkpoint_kept hi_n \<and> hi' = staged_deletion hi_n))"
    and eq: "(case doRepair_body hi cur of Inl res \<Rightarrow> Some res | Inr (hi', next) \<Rightarrow> f hi' next) = Some y"
  show "checkpoint_kept hi \<longrightarrow> (\<forall>hi'. y = (Return None, hi') \<longrightarrow>
           (\<exists>hi_n. checkpoint_kept hi_n \<and> hi' = staged_deletion hi_n))"
  proof (cases "doRepair_body hi cur")
    case (Inl res)
    with eq have "y = res" by simp
    with Inl show ?thesis using doRepair_body_Return_None[of hi cur] by auto
  next
    case (Inr p)
    obtain h c where p: "p = (h, c)" by (cases p)
    with Inr eq have "f h c = Some y" by simp
    from IH[OF this] checkpoint_kept_body[of hi cur h c] Inr p show ?thesis by auto
  qed
qed


lemma checkpoint_kept_after_probe:
  assumes "shouldRepair hi0 = ((True, start, None), hi1)"
    and "writes (batch hi0) = []"
    and "write_batch hi1 = (None, hi2)"
  shows "checkpoint_kept hi2"
proof (cases "GetCheckpoint (indexState hi0)")
  case (Inr cp)
  with assms(1) have "hi1 = hi0" by (simp add: shouldRepair_def)
  then have "checkpoint_kept hi1" using Inr assms(2) by (simp add: checkpoint_kept_def)
  then show ?thesis using assms(3) by (rule checkpoint_kept_write)
next
  case (Inl err)
  with assms(1) have e: "err = ErrNotFound"
    by (auto simp add: shouldRepair_def split: if_splits)
  obtain blk where b: "GetBlk (server hi0) (LastAcceptedBlkID (server hi0)) = Inr blk"
    using assms(1) Inl e
    by (cases "GetBlk (server hi0) (LastAcceptedBlkID (server hi0))") (auto simp add: shouldRepair_def Let_def)
  obtain r ix where g: "GetBlockIDAtHeight (indexState hi0) (HeightV blk) = (r, ix)"
    by (cases "GetBlockIDAtHeight (indexState hi0) (HeightV blk)")
  have d: "db ix = db (indexState hi0)"
    using db_GetBlockIDAtHeight[of "indexState hi0" "HeightV blk"] g by simp
  have h1: "hi1 = hi0\<lparr>indexState := ix,
      batch := (batch hi0)\<lparr>writes := [BatchPut GetCheckpointKey (id_bytes (LastAcceptedBlkID (server hi0)))]\<rparr>\<rparr>"
    using assms(1,2) Inl e b g
    by (auto simp add: shouldRepair_def Let_def batch_Put_def split: sum.splits if_splits)
  have f: "fault (db (indexState hi0)) (OpGet GetCheckpointKey) = None"
    using Inl e by (auto simp add: GetCheckpoint_def db_Get_def split: option.splits if_splits)
  from assms(3) h1 d have w: "fault (db (indexState hi0)) (OpWrite (writes (batch hi1))) = None"
    and h2: "contents (db (indexState hi2)) GetCheckpointKey = Some (id_bytes (LastAcceptedBlkID (server hi0)))"
       "fault (db (indexState hi2)) = fault (db (indexState hi0))"
       "writes (batch hi2) = [BatchPut GetCheckpointKey (id_bytes (LastAcceptedBlkID (server hi0)))]"
    by (auto simp add: write_batch_def batch_Write_def split: option.splits)
  show ?thesis
    using h2 f GetCheckpoint_Inr_iff[of "indexState hi2"] by (simp add: checkpoint_kept_def)
qed


lemma RepairHeightIndex_returns_nil:
  assumes "writes (batch hi0) = []"
    and "RepairHeightIndex hi0 = Some (Return None, hi')"
  shows "IsRepaired hi' \<and> GetCheckpoint (indexState hi') = Inl ErrNotFound"
proof -
  obtain needRepair start e hi1 where s: "shouldRepair hi0 = ((needRepair, start, e), hi1)"
    by (cases "shouldRepair hi0") auto
  have e: "e = None" using assms(2) s by (cases e) (simp_all add: RepairHeightIndex_def)
  obtain e2 hi2 where w: "write_batch hi1 = (e2, hi2)" by (cases "write_batch hi1")
  have e2: "e2 = None" using assms(2) s e w by (cases e2) (simp_all add: RepairHeightIndex_def)
  show ?thesis
  proof (cases needRepair)
    case False
    with assms(2) s e w e2 have h: "hi' = hi2" by (simp add: RepairHeightIndex_def)
    have c: "GetCheckpoint (indexState hi0) = Inl ErrNotFound"
      using s False by (auto simp add: shouldRepair_def Let_def split: sum.splits if_splits prod.splits)
    obtain blk where b: "GetBlk (server hi0) (LastAcceptedBlkID (server hi0)) = Inr blk"
      using s False c
      by (cases "GetBlk (server hi0) (LastAcceptedBlkID (server hi0))") (auto simp add: shouldRepair_def Let_def)
    obtain r ix where g: "GetBlockIDAtHeight (indexState hi0) (HeightV blk) = (r, ix)"
      by (cases "GetBlockIDAtHeight (indexState hi0) (HeightV blk)")
    have d: "db ix = db (indexState hi0)"
      using db_GetBlockIDAtHeight[of "indexState hi0" "HeightV blk"] g by simp
    have h1: "hi1 = hi0\<lparr>indexState := ix, jobDone := True\<rparr>"
      using s False c b g
      by (auto simp add: shouldRepair_def Let_def batch_Put_def split: sum.splits if_splits)
    have "db (indexState hi2) = db (indexState hi0) \<and> jobDone hi2"
      using w e2 h1 d assms(1)
      by (auto simp add: write_batch_def batch_Write_def split: option.splits)
    then show ?thesis using h c by (simp add: IsRepaired_def GetCheckpoint_def)
  next
    case True
    obtain y where dr: "doRepair hi2 start = Some y"
      using assms(2) s e w e2 True by (cases "doRepair hi2 start") (simp_all add: RepairHeightIndex_def)
    obtain x hi3 where y: "y = (x, hi3)" by (cases y)
    have x: "x = Return None"
      using assms(2) s e w e2 True dr y
      by (cases x) (auto simp add: RepairHeightIndex_def split: option.splits prod.splits)
    have "checkpoint_kept hi2"
      using s e True assms(1) w e2 checkpoint_kept_after_probe[of hi0 start hi1 hi2] by simp
    with doRepair_returns_nil[OF dr] y x
    obtain hi_n where k: "checkpoint_kept hi_n" and h3: "hi3 = staged_deletion hi_n" by blast
    have f: "fault (db (indexState hi_n)) (OpGet GetCheckpointKey) = None"
      using k GetCheckpoint_Inr_iff[of "indexState hi_n"] by (auto simp add: checkpoint_kept_def)
    obtain e4 hi4 where w4: "write_batch hi3 = (e4, hi4)" by (cases "write_batch hi3")
    have e4: "e4 = None" and h: "hi' = hi4"
      using assms(2) s e w e2 True dr y x w4
      by (cases e4; simp add: RepairHeightIndex_def)+
    show ?thesis
      using GetCheckpoint_after_commit[of hi_n] IsRepaired_write_batch_staged[of hi_n] f w4 e4 h h3
      by simp
  qed
qed





section \<open>Live updates of the index\<close>

lemma storeHeightEntry_written:
  assumes "fst (storeHeightEntry vm h blkID) = None"
  shows "contents (db (State (snd (storeHeightEntry vm h blkID)))) (GetEntryKey h) = Some (id_bytes blkID)"
  using assms
  by (auto simp add: storeHeightEntry_def State_def State_update_def SetBlockIDAtHeight_def
      SetForkHeight_def PutUInt64_def db_Put_def db_Commit_def Let_def
      split: sum.splits prod.splits option.splits if_splits)

lemma storeHeightEntry_no_fork_height:
  "GetForkHeight (State vm) = Inl e \<Longrightarrow> storeHeightEntry vm h blkID = (Some e, vm)"
  by (simp add: storeHeightEntry_def)

lemma storeHeightEntry_succeeds:
  assumes f: "GetForkHeight (State vm) = Inr fh"
    and p1: "fault (db (State vm)) (OpPut GetForkKey) = None"
    and p2: "fault (db (State vm)) (OpPut (GetEntryKey h)) = None"
    and p3: "fault (db (State vm)) OpCommit = None"
  shows "fst (storeHeightEntry vm h blkID) = None
    \<and> contents (db (State (snd (storeHeightEntry vm h blkID)))) (GetEntryKey h) = Some (id_bytes blkID)
    \<and> GetForkHeight (State (snd (storeHeightEntry vm h blkID))) = Inr (min fh h)"
proof -
  have g: "fault (db (State vm)) (OpGet GetForkKey) = None"
    using f by (auto simp add: GetForkHeight_def GetUInt64_def db_Get_def split: option.splits)
  show ?thesis
  proof (cases "fh > h")
    case True
    then have m: "min fh h = h" by simp
    show ?thesis
      using f True p1 p2 p3 g GetEntryKey_neq_GetForkKey[of h]
      unfolding m
      by (auto simp add: storeHeightEntry_def State_def State_update_def SetForkHeight_def PutUInt64_def
          SetBlockIDAtHeight_def db_Put_def db_Commit_def GetForkHeight_def GetUInt64_def db_Get_def
          Uint64_PutUint64 length_PutUint64 Let_def)
  next
    case False
    then have m: "min fh h = fh" by simp
    show ?thesis
      using f False p2 p3 g GetEntryKey_neq_GetForkKey[of h]
      unfolding m
      by (auto simp add: storeHeightEntry_def State_def State_update_def
          SetBlockIDAtHeight_def db_Put_def db_Commit_def GetForkHeight_def GetUInt64_def db_Get_def
          Let_def split: option.splits sum.splits if_splits)
  qed
qed

text \<open>
  Claim C4, as stated, has the entry written at once whenever a checkpoint exists and
  the block is not the checkpoint block. The write path first reads the fork height and
  returns its error: on a store that holds a checkpoint and no fork height the call
  returns not-found and writes nothing.
\<close>

theorem updateHeightIndex_write_counterexample:
  "GetCheckpoint (State vm_unforked) = Inr (mkID 1)
   \<and> mkID 3 \<noteq> mkID 1
   \<and> updateHeightIndex vm_unforked 5 (mkID 3) = (Some ErrNotFound, vm_unforked)
   \<and> contents (db (State (snd (updateHeightIndex vm_unforked 5 (mkID 3))))) (GetEntryKey 5) = None
   \<and> fst (GetBlockIDAtHeight (State (snd (updateHeightIndex vm_unforked 5 (mkID 3)))) 5) = Inl ErrNotFound"
proof -
  have c: "GetCheckpoint (State vm_unforked) = Inr (mkID 1)"
    by (simp add: vm_unforked_def unforkedDB_def State_def newHeightIndexer_def New_def
        GetCheckpoint_def db_Get_def)
  have f: "GetForkHeight (State vm_unforked) = Inl ErrNotFound"
    by (simp add: vm_unforked_def unforkedDB_def State_def newHeightIndexer_def New_def
        GetForkHeight_def GetUInt64_def db_Get_def ck_bytes fk_bytes)
  have u: "updateHeightIndex vm_unforked 5 (mkID 3) = (Some ErrNotFound, vm_unforked)"
    using c f by (simp add: updateHeightIndex_def storeHeightEntry_def)
  have e: "contents (db (State vm_unforked)) (GetEntryKey 5) = None"
    using GetEntryKey_neq_GetCheckpointKey[of 5]
    by (simp add: vm_unforked_def unforkedDB_def State_def newHeightIndexer_def New_def)
  have g: "fst (GetBlockIDAtHeight (State vm_unforked) 5) = Inl ErrNotFound"
    using GetEntryKey_neq_GetCheckpointKey[of 5]
    by (simp add: vm_unforked_def unforkedDB_def State_def newHeightIndexer_def New_def
        GetBlockIDAtHeight_def lru_Get_def db_Get_def Let_def)
  show ?thesis using c u e g by simp
qed

text \<open>
  Claim C4, amended. When a checkpoint exists and \<open>blkID\<close> is not the checkpoint block,
  and when no checkpoint exists and the done flag is set,
  \<^verbatim>\<open>updateHeightIndex(height, blkID)\<close> takes the write path (\<^verbatim>\<open>storeHeightEntry\<close>)
  at once. If the fork height cannot be read, the call returns that error and changes
  nothing. If it can, and the store accepts the puts and the commit, the call returns
  nil, the entry \<open>height \<mapsto> blkID\<close> is in the store, the fork height is the lesser of
  what it was and \<open>height\<close>, and a read of that height (on a store that can be read)
  returns \<open>blkID\<close>. Whenever the call returns nil on the write path the entry is in the
  store. In every other case in which \<open>GetCheckpoint\<close> does not fail (the block is the
  checkpoint block, or there is no checkpoint and the flag is not set) the call changes
  nothing and returns nil.
\<close>

theorem updateHeightIndex_cases:
  "(GetCheckpoint (State vm) = Inr cp \<and> blkID \<noteq> cp
      \<or> GetCheckpoint (State vm) = Inl ErrNotFound \<and> IsRepaired (hIndexer vm) \<longrightarrow>
      updateHeightIndex vm h blkID = storeHeightEntry vm h blkID
      \<and> (\<forall>e. GetForkHeight (State vm) = Inl e \<longrightarrow> updateHeightIndex vm h blkID = (Some e, vm))
      \<and> (\<forall>fh. GetForkHeight (State vm) = Inr fh
              \<and> fault (db (State vm)) (OpPut GetForkKey) = None
              \<and> fault (db (State vm)) (OpPut (GetEntryKey h)) = None
              \<and> fault (db (State vm)) OpCommit = None \<longrightarrow>
            fst (updateHeightIndex vm h blkID) = None
            \<and> contents (db (State (snd (updateHeightIndex vm h blkID)))) (GetEntryKey h)
                 = Some (id_bytes blkID)
            \<and> GetForkHeight (State (snd (updateHeightIndex vm h blkID))) = Inr (min fh h))
      \<and> (fst (updateHeightIndex vm h blkID) = None \<longrightarrow>
           contents (db (State (snd (updateHeightIndex vm h blkID)))) (GetEntryKey h)
             = Some (id_bytes blkID)
           \<and> (fault (db (State vm)) (OpGet (GetEntryKey h)) = None \<longrightarrow>
                fst (GetBlockIDAtHeight (State (snd (updateHeightIndex vm h blkID))) h) = Inr blkID)))
   \<and> (GetCheckpoint (State vm) = Inr blkID
        \<or> GetCheckpoint (State vm) = Inl ErrNotFound \<and> \<not> IsRepaired (hIndexer vm) \<longrightarrow>
      updateHeightIndex vm h blkID = (None, vm))"
proof -
  have "updateHeightIndex vm h blkID = storeHeightEntry vm h blkID"
    if "GetCheckpoint (State vm) = Inr cp \<and> blkID \<noteq> cp
      \<or> GetCheckpoint (State vm) = Inl ErrNotFound \<and> IsRepaired (hIndexer vm)"
    using that by (auto simp add: updateHeightIndex_def)
  moreover have "updateHeightIndex vm h blkID = (None, vm)"
    if "GetCheckpoint (State vm) = Inr blkID
        \<or> GetCheckpoint (State vm) = Inl ErrNotFound \<and> \<not> IsRepaired (hIndexer vm)"
    using that by (auto simp add: updateHeightIndex_def)
  ultimately show ?thesis
    using storeHeightEntry_written[of vm h blkID] storeHeightEntry_read_back[of vm h blkID]
      storeHeightEntry_no_fork_height[of vm _ h blkID] storeHeightEntry_succeeds[of vm _ h blkID]
    by auto
qed

theorem updateHeightIndex_cases_witness:
  "fst (updateHeightIndex vm_repairing 5 (mkID 3)) = None
   \<and> contents (db (State (snd (updateHeightIndex vm_repairing 5 (mkID 3))))) (GetEntryKey 5)
       = Some (id_bytes (mkID 3))
   \<and> GetForkHeight (State (snd (updateHeightIndex vm_repairing 5 (mkID 3)))) = Inr 0
   \<and> fst (updateHeightIndex vm_done 5 (mkID 3)) = None
   \<and> contents (db (State (snd (updateHeightIndex vm_done 5 (mkID 3))))) (GetEntryKey 5)
       = Some (id_bytes (mkID 3))
   \<and> fst (GetBlockIDAtHeight (State (snd (updateHeightIndex vm_done 5 (mkID 3)))) 5) = Inr (mkID 3)
   \<and> updateHeightIndex vm_unforked 5 (mkID 3) = (Some ErrNotFound, vm_unforked)
   \<and> updateHeightIndex vm_repairing 0 (mkID 1) = (None, vm_repairing)
   \<and> updateHeightIndex vm_idle 5 (mkID 3) = (None, vm_idle)"
proof -
  have c1: "GetCheckpoint (State vm_repairing) = Inr (mkID 1)"
    by (simp add: vm_repairing_def repairingDB_def State_def newHeightIndexer_def New_def
        GetCheckpoint_def db_Get_def ck_bytes fk_bytes)
  have c2: "GetCheckpoint (State vm_done) = Inl ErrNotFound" "IsRepaired (hIndexer vm_done)"
    by (simp_all add: vm_done_def forkedDB_def State_def newHeightIndexer_def New_def
        GetCheckpoint_def db_Get_def ck_bytes fk_bytes IsRepaired_def)
  have c3: "GetCheckpoint (State vm_idle) = Inl ErrNotFound" "\<not> IsRepaired (hIndexer vm_idle)"
    by (simp_all add: vm_idle_def forkedDB_def State_def newHeightIndexer_def New_def
        GetCheckpoint_def db_Get_def ck_bytes fk_bytes IsRepaired_def)
  have c4: "GetCheckpoint (State vm_unforked) = Inr (mkID 1)"
    by (simp add: vm_unforked_def unforkedDB_def State_def newHeightIndexer_def New_def
        GetCheckpoint_def db_Get_def)
  have f1: "GetForkHeight (State vm_repairing) = Inr 0"
    by (simp add: vm_repairing_def repairingDB_def State_def newHeightIndexer_def New_def
        GetForkHeight_def GetUInt64_def db_Get_def Uint64_PutUint64 length_PutUint64)
  have f2: "GetForkHeight (State vm_done) = Inr 0"
    by (simp add: vm_done_def forkedDB_def State_def newHeightIndexer_def New_def
        GetForkHeight_def GetUInt64_def db_Get_def Uint64_PutUint64 length_PutUint64)
  have f4: "GetForkHeight (State vm_unforked) = Inl ErrNotFound"
    by (simp add: vm_unforked_def unforkedDB_def State_def newHeightIndexer_def New_def
        GetForkHeight_def GetUInt64_def db_Get_def ck_bytes fk_bytes)
  have p1: "fault (db (State vm_repairing)) (OpPut GetForkKey) = None
      \<and> fault (db (State vm_repairing)) (OpPut (GetEntryKey 5)) = None
      \<and> fault (db (State vm_repairing)) OpCommit = None"
    by (simp add: vm_repairing_def repairingDB_def State_def newHeightIndexer_def New_def)
  have p2: "fault (db (State vm_done)) (OpPut GetForkKey) = None
      \<and> fault (db (State vm_done)) (OpPut (GetEntryKey 5)) = None
      \<and> fault (db (State vm_done)) OpCommit = None"
    "fault (db (State vm_done)) (OpGet (GetEntryKey 5)) = None"
    by (simp_all add: vm_done_def forkedDB_def State_def newHeightIndexer_def New_def)
  have ne: "mkID 3 \<noteq> mkID 1" by simp
  note t1 = updateHeightIndex_cases[of vm_repairing "mkID 1" "mkID 3" 5]
  note t2 = updateHeightIndex_cases[of vm_done "mkID 1" "mkID 3" 5]
  note t3 = updateHeightIndex_cases[of vm_repairing "mkID 1" "mkID 1" 0]
  note t4 = updateHeightIndex_cases[of vm_idle "mkID 1" "mkID 3" 5]
  note t5 = updateHeightIndex_cases[of vm_unforked "mkID 1" "mkID 3" 5]
  have w1: "fst (updateHeightIndex vm_repairing 5 (mkID 3)) = None
     \<and> contents (db (State (snd (updateHeightIndex vm_repairing 5 (mkID 3))))) (GetEntryKey 5)
       = Some (id_bytes (mkID 3))
     \<and> GetForkHeight (State (snd (updateHeightIndex vm_repairing 5 (mkID 3)))) = Inr (min 0 5)"
    using t1 c1 ne f1 p1 by blast
  have w2: "fst (updateHeightIndex vm_done 5 (mkID 3)) = None
     \<and> contents (db (State (snd (updateHeightIndex vm_done 5 (mkID 3))))) (GetEntryKey 5)
       = Some (id_bytes (mkID 3))"
    using t2 c2 f2 p2(1) by blast
  have a2: "GetCheckpoint (State vm_done) = Inr (mkID 1) \<and> mkID 3 \<noteq> mkID 1
      \<or> GetCheckpoint (State vm_done) = Inl ErrNotFound \<and> IsRepaired (hIndexer vm_done)"
    using c2 by blast
  note b2 = mp[OF conjunct1[OF t2] a2]
  note d2 = mp[OF conjunct2[OF conjunct2[OF conjunct2[OF b2]]] conjunct1[OF w2]]
  note w2b = mp[OF conjunct2[OF d2] p2(2)]
  have w5: "updateHeightIndex vm_unforked 5 (mkID 3) = (Some ErrNotFound, vm_unforked)"
    using t5 c4 ne f4 by blast
  have w3: "updateHeightIndex vm_repairing 0 (mkID 1) = (None, vm_repairing)"
    using t3 c1 by blast
  have w4: "updateHeightIndex vm_idle 5 (mkID 3) = (None, vm_idle)"
    using t4 c3 by blast
  have m: "min (0::uint64) 5 = 0" by simp
  show ?thesis
    using w1 w2 w2b w5 w3 w4 unfolding m by blast
qed

section \<open>Quota symmetry of the throttled queue\<close>

lemma released_foldl_Release: "released (foldl Release t ms) = released t @ ms"
  by (induction ms arbitrary: t) (simp_all add: Release_def)

lemma acquired_foldl_Release: "acquired (foldl Release t ms) = acquired t"
  by (induction ms arbitrary: t) (simp_all add: Release_def)

lemma quota_balanced_new: "quota_balanced (NewThrottledMessageQueue (NewThrottler p))"
  by (simp add: quota_balanced_def NewThrottledMessageQueue_def NewThrottler_def)

lemma quota_balanced_step: "quota_balanced q \<Longrightarrow> quota_balanced (apply_queue_op q op)"
proof (cases op)
  case (DoPush msg)
  assume "quota_balanced q"
  then show ?thesis using DoPush
    by (auto simp add: quota_balanced_def Push_def Acquire_def Release_def)
next
  case DoPop
  assume "quota_balanced q"
  then show ?thesis using DoPop
    by (cases "queue q") (auto simp add: quota_balanced_def Pop_def Release_def)
next
  case DoPopWithoutBlocking
  assume "quota_balanced q"
  then show ?thesis using DoPopWithoutBlocking
    by (cases "queue q") (auto simp add: quota_balanced_def PopWithoutBlocking_def Release_def)
next
  case DoClose
  assume "quota_balanced q"
  then show ?thesis using DoClose
    by (simp add: quota_balanced_def Close_def released_foldl_Release acquired_foldl_Release)
qed

lemma quota_balanced_run: "quota_balanced q \<Longrightarrow> quota_balanced (run_queue_ops q ops)"
  unfolding run_queue_ops_def
  by (induction ops arbitrary: q) (simp_all add: quota_balanced_step)

lemma closed_step: "closed q \<Longrightarrow> closed (apply_queue_op q op)"
  by (cases op)
    (auto simp add: Push_def Acquire_def Pop_def PopWithoutBlocking_def Close_def split: list.splits)

lemma closed_foldl: "closed q \<Longrightarrow> closed (foldl apply_queue_op q ops)"
  by (induction ops arbitrary: q) (simp_all add: closed_step)

lemma closed_run: "DoClose \<in> set ops \<Longrightarrow> closed (run_queue_ops q ops)"
  unfolding run_queue_ops_def
proof (induction ops arbitrary: q)
  case Nil
  then show ?case by simp
next
  case (Cons op ops)
  show ?case
  proof (cases "op = DoClose")
    case True
    then have "closed (apply_queue_op q op)" by (simp add: Close_def)
    then show ?thesis by (simp add: closed_foldl)
  next
    case False
    with Cons.prems have "DoClose \<in> set ops" by simp
    then show ?thesis using Cons.IH by simp
  qed
qed

text \<open>
  Claim C5, as stated, holds of every finite sequence of operations. It fails while an
  admitted message is still queued: after one \<open>Push\<close> on a new queue one reservation is
  acquired and none is released.
\<close>

theorem quota_symmetry_counterexample:
  "length (acquired (outboundMsgThrottler
      (run_queue_ops (NewThrottledMessageQueue (NewThrottler (\<lambda>_ _ _. True))) [DoPush (10::nat)]))) = 1
   \<and> length (released (outboundMsgThrottler
      (run_queue_ops (NewThrottledMessageQueue (NewThrottler (\<lambda>_ _ _. True))) [DoPush (10::nat)]))) = 0"
  by (simp add: run_queue_ops_def NewThrottledMessageQueue_def NewThrottler_def Push_def Acquire_def)

text \<open>
  Claim C5, amended. After every finite sequence of \<open>Push\<close>, \<open>Pop\<close>,
  \<open>PopWithoutBlocking\<close> and \<open>Close\<close> on a new queue, the reservations acquired are
  those released together with those of the messages still queued, message for message:
  each admitted message is released once, or is still in the queue. Once \<open>Close\<close> has
  been called the queue is empty, and the successful \<open>Acquire\<close> calls are as many as
  the \<open>Release\<close> calls.
\<close>

theorem quota_symmetry:
  "mset (acquired (outboundMsgThrottler (run_queue_ops (NewThrottledMessageQueue (NewThrottler p)) ops)))
     = mset (released (outboundMsgThrottler (run_queue_ops (NewThrottledMessageQueue (NewThrottler p)) ops)))
       + mset (queue (run_queue_ops (NewThrottledMessageQueue (NewThrottler p)) ops))
   \<and> (DoClose \<in> set ops \<longrightarrow>
        queue (run_queue_ops (NewThrottledMessageQueue (NewThrottler p)) ops) = []
        \<and> length (acquired (outboundMsgThrottler (run_queue_ops (NewThrottledMessageQueue (NewThrottler p)) ops)))
          = length (released (outboundMsgThrottler (run_queue_ops (NewThrottledMessageQueue (NewThrottler p)) ops))))"
proof -
  let ?q = "run_queue_ops (NewThrottledMessageQueue (NewThrottler p)) ops"
  have b: "quota_balanced ?q"
    by (rule quota_balanced_run[OF quota_balanced_new])
  then have m: "mset (acquired (outboundMsgThrottler ?q))
      = mset (released (outboundMsgThrottler ?q)) + mset (queue ?q)"
    by (simp add: quota_balanced_def)
  have "queue ?q = []
      \<and> length (acquired (outboundMsgThrottler ?q)) = length (released (outboundMsgThrottler ?q))"
    if "DoClose \<in> set ops"
  proof -
    have "closed ?q" using that by (rule closed_run)
    with b have e: "queue ?q = []" by (simp add: quota_balanced_def)
    with m have "mset (acquired (outboundMsgThrottler ?q)) = mset (released (outboundMsgThrottler ?q))"
      by simp
    then have "length (acquired (outboundMsgThrottler ?q)) = length (released (outboundMsgThrottler ?q))"
      by (rule mset_eq_length)
    with e show ?thesis by simp
  qed
  with m show ?thesis by blast
qed

theorem quota_symmetry_witness:
  "length (acquired (outboundMsgThrottler
      (run_queue_ops (NewThrottledMessageQueue (NewThrottler (\<lambda>_ _ _. True)))
         [DoPush (10::nat), DoPush 11, DoPush 12, DoPop, DoClose, DoPush 13, DoPop]))) = 4
   \<and> length (released (outboundMsgThrottler
      (run_queue_ops (NewThrottledMessageQueue (NewThrottler (\<lambda>_ _ _. True)))
         [DoPush (10::nat), DoPush 11, DoPush 12, DoPop, DoClose, DoPush 13, DoPop]))) = 4
   \<and> sendFailed (run_queue_ops (NewThrottledMessageQueue (NewThrottler (\<lambda>_ _ _. True)))
         [DoPush (10::nat), DoPush 11, DoPush 12, DoPop, DoClose, DoPush 13, DoPop]) = [11, 12, 13]"
proof -
  have c: "DoClose \<in> set [DoPush (10::nat), DoPush 11, DoPush 12, DoPop, DoClose, DoPush 13, DoPop]"
    by simp
  have a: "length (acquired (outboundMsgThrottler
      (run_queue_ops (NewThrottledMessageQueue (NewThrottler (\<lambda>_ _ _. True)))
         [DoPush (10::nat), DoPush 11, DoPush 12, DoPop, DoClose, DoPush 13, DoPop]))) = 4"
    by (simp add: run_queue_ops_def NewThrottledMessageQueue_def NewThrottler_def Push_def Acquire_def
        Release_def Pop_def Close_def)
  have s: "sendFailed (run_queue_ops (NewThrottledMessageQueue (NewThrottler (\<lambda>_ _ _. True)))
         [DoPush (10::nat), DoPush 11, DoPush 12, DoPop, DoClose, DoPush 13, DoPop]) = [11, 12, 13]"
    by (simp add: run_queue_ops_def NewThrottledMessageQueue_def NewThrottler_def Push_def Acquire_def
        Release_def Pop_def Close_def)
  show ?thesis
    using quota_symmetry[of "\<lambda>_ _ _. True"
        "[DoPush (10::nat), DoPush 11, DoPush 12, DoPop, DoClose, DoPush 13, DoPop]"] c a s
    by simp
qed

section \<open>Push on the blocking queue\<close>





section \<open>Signals of the worker pool\<close>

lemma releaseWorker_blocks:
  "releaseWorker t = Blocked (if locked t then t else t\<lparr>locked := True\<rparr>)"
  by (simp add: releaseWorker_def decrementWorkers_def Lock_def)

lemma incrementWorkers_locked: "locked t \<Longrightarrow> incrementWorkers t = Blocked t"
  by (simp add: incrementWorkers_def Lock_def)

lemma incrementWorkers_returns:
  "\<not> locked t \<Longrightarrow> \<exists>t1. incrementWorkers t = Returned t1 \<and> \<not> locked t1 \<and> signalCh t1 = signalCh t"
  by (simp add: incrementWorkers_def Lock_def Unlock_def Let_def)

text \<open>
  Claim C7 has each \<open>releaseWorker\<close> call emit exactly one signal, so that a submission
  waiting on the signal channel is woken. In the pool of \<^verbatim>\<open>utils/thread_pool.go\<close>
  (first revision) and in the router's, \<open>releaseWorker\<close> takes the mutex and then
  calls \<open>decrementWorkers\<close>, which takes it again: the call stops there for good,
  holding the mutex. Called with the mutex free it emits no signal and leaves
  \<open>activeWorkers\<close> as it was, a submission that was waiting for a signal is waiting still,
  and every later \<open>incrementWorkers\<close> and \<open>releaseWorker\<close> stops on the mutex too. So
  does the worker of an admitted request, \<open>handleMessage\<close>, at its exit.
\<close>

theorem releaseWorker_self_deadlock:
  assumes "\<not> locked t"
  shows "releaseWorker t = Blocked (t\<lparr>locked := True\<rparr>)
    \<and> signals_emitted t (releaseWorker t) = 0
    \<and> activeWorkers (pool_of (releaseWorker t)) = activeWorkers t
    \<and> (fst (sendMessage t) = Waiting \<longrightarrow> fst (sendMessage (pool_of (releaseWorker t))) = Waiting)
    \<and> incrementWorkers (pool_of (releaseWorker t)) = Blocked (pool_of (releaseWorker t))
    \<and> releaseWorker (pool_of (releaseWorker t)) = Blocked (pool_of (releaseWorker t))
    \<and> (\<exists>t'. handleMessage t = Blocked t' \<and> locked t' \<and> signalCh t' = signalCh t)"
proof -
  have r: "releaseWorker t = Blocked (t\<lparr>locked := True\<rparr>)"
    using assms by (simp add: releaseWorker_blocks)
  have s: "fst (sendMessage (t\<lparr>locked := True\<rparr>)) = fst (sendMessage t)"
    by (simp add: sendMessage_def freeWorkerExists_def Let_def)
  obtain t1 where i: "incrementWorkers t = Returned t1" "\<not> locked t1" "signalCh t1 = signalCh t"
    using incrementWorkers_returns[OF assms] by blast
  have h: "handleMessage t = Blocked (t1\<lparr>locked := True\<rparr>)"
    using i by (simp add: handleMessage_def releaseWorker_blocks)
  show ?thesis
    using r s h i(3) by (simp add: signals_emitted_def incrementWorkers_locked releaseWorker_blocks)
qed

theorem releaseWorker_self_deadlock_witness:
  "\<not> locked busy_pool
   \<and> releaseWorker busy_pool = Blocked (busy_pool\<lparr>locked := True\<rparr>)
   \<and> signals_emitted busy_pool (releaseWorker busy_pool) = 0
   \<and> sendMessage busy_pool = (Waiting, busy_pool)
   \<and> fst (sendMessage (pool_of (releaseWorker busy_pool))) = Waiting
   \<and> chan_len (signalCh (pool_of (releaseWorker busy_pool))) = 0
   \<and> activeWorkers (pool_of (releaseWorker busy_pool)) = 2"
proof -
  have a: "\<not> locked busy_pool" by (simp add: busy_pool_def)
  have b: "sendMessage busy_pool = (Waiting, busy_pool)"
    by (simp add: sendMessage_def freeWorkerExists_def busy_pool_def)
  have c: "chan_len (signalCh busy_pool) = 0" "activeWorkers busy_pool = 2"
    by (simp_all add: busy_pool_def)
  note t = releaseWorker_self_deadlock[OF a]
  have r: "releaseWorker busy_pool = Blocked (busy_pool\<lparr>locked := True\<rparr>)" using t by blast
  have s: "signals_emitted busy_pool (releaseWorker busy_pool) = 0" using t by blast
  have w: "fst (sendMessage (pool_of (releaseWorker busy_pool))) = Waiting"
    using t b by (metis fst_conv)
  have l: "chan_len (signalCh (pool_of (releaseWorker busy_pool))) = 0"
    using s c(1) by (simp add: signals_emitted_def)
  have n: "activeWorkers (pool_of (releaseWorker busy_pool)) = 2"
    using t c(2) by metis
  show ?thesis using a r s b w l n by blast
qed

text \<open>
  In the second revision of \<^verbatim>\<open>utils/thread_pool.go\<close>, whose \<open>decrementWorkers\<close> takes
  no lock, a call made with the mutex free and the signal channel open returns with the
  mutex free again, and with one signal more in the channel exactly when the channel had
  room.
\<close>

lemma releaseWorker_v2_returns:
  assumes "\<not> locked t" and "\<not> chan_closed (signalCh t)"
  shows "\<exists>t'. releaseWorker_v2 t = Returned t' \<and> \<not> locked t'
           \<and> activeWorkers t' = (if sint (activeWorkers t - 1) < 0 then 0 else activeWorkers t - 1)
           \<and> size t' = size t
           \<and> chan_cap (signalCh t') = chan_cap (signalCh t)
           \<and> chan_len (signalCh t') =
               (if chan_len (signalCh t) = chan_cap (signalCh t) then chan_len (signalCh t)
                else chan_len (signalCh t) + 1)"
  using assms
  by (simp add: releaseWorker_v2_def decrementWorkers_v2_def signal_free_worker_def
      Lock_def Unlock_def Let_def)

lemma releaseWorker_v2_busy_pool:
  "releaseWorker_v2 busy_pool =
     Returned \<lparr>locked = False, size = 2, activeWorkers = 1,
               signalCh = \<lparr>chan_len = 1, chan_cap = 2, chan_closed = False\<rparr>\<rparr>"
  by (simp add: busy_pool_def releaseWorker_v2_def decrementWorkers_v2_def signal_free_worker_def
      Lock_def Unlock_def Let_def)

lemma releaseWorker_v2_full_pool:
  "releaseWorker_v2 full_pool = Returned (full_pool\<lparr>activeWorkers := 0\<rparr>)
   \<and> signals_emitted full_pool (releaseWorker_v2 full_pool) = 0"
  by (simp add: full_pool_def releaseWorker_v2_def decrementWorkers_v2_def signal_free_worker_def
      Lock_def Unlock_def Let_def signals_emitted_def)

end
